theory Spec2Isabelle
  imports Complex_Main
begin

section \<open>Numbers, vectors and the drawing surface\<close>

text \<open>
  The sketch of \<^verbatim>\<open>FireworkSketch\<close> is embedded function by function. A JavaScript
  number is modelled as a real number, so rounding of doubles is not part of the model.
  A \<^verbatim>\<open>p5.Vector\<close> made by \<^verbatim>\<open>createVector(x, y)\<close> or \<^verbatim>\<open>random2D()\<close> keeps its third
  component at 0 under every operation the sketch uses; it is modelled as the pair of
  its first two components.
\<close>

type_synonym vector = "real \<times> real"

definition createVector :: "real \<Rightarrow> real \<Rightarrow> vector" where
  "createVector a b = (a, b)"

text \<open>\<^verbatim>\<open>v.add(w)\<close> and \<^verbatim>\<open>v.mult(n)\<close>, returning the new value of \<^verbatim>\<open>v\<close>.\<close>

definition add :: "vector \<Rightarrow> vector \<Rightarrow> vector" where
  "add v w = (fst v + fst w, snd v + snd w)"

definition mult :: "vector \<Rightarrow> real \<Rightarrow> vector" where
  "mult v n = (fst v * n, snd v * n)"

text \<open>
  A \<^verbatim>\<open>p5.Color\<close> made by \<^verbatim>\<open>p.color(h, s, b)\<close> in HSB mode, and \<^verbatim>\<open>p.hue(c)\<close> reading
  the hue back.
\<close>

type_synonym color = "real \<times> real \<times> real"

definition p5_color :: "real \<Rightarrow> real \<Rightarrow> real \<Rightarrow> color" where
  "p5_color h s b = (h, s, b)"

definition p5_hue :: "color \<Rightarrow> real" where
  "p5_hue c = fst c"

text \<open>
  The calls the sketch makes on the drawing surface. What the sketch draws in a frame
  is the list of these calls, in the order they are made.
\<close>

datatype color_mode = HSB

datatype command =
    Clear
  | Push
  | Pop
  | NoFill
  | ColorMode color_mode
  | StrokeWeight real
  | Stroke real real real real
  | Point real real
  | Circle real real real

subsection \<open>The random source\<close>

text \<open>
  The random source is the infinite sequence \<open>R\<close> of the values that \<^verbatim>\<open>Math.random()\<close>
  returns, each in \<open>[0, 1)\<close>; a counter says how many have been consumed. \<^verbatim>\<open>p.random(lo, hi)\<close>
  consumes one value \<open>r\<close> and returns \<open>r * (hi - lo) + lo\<close>; \<^verbatim>\<open>p5.Vector.random2D()\<close>
  consumes one value \<open>r\<close> and returns the unit vector at angle \<open>r * 2\<pi>\<close>.
\<close>

type_synonym random_source = "nat \<Rightarrow> real"

definition random :: "real \<Rightarrow> real \<Rightarrow> real \<Rightarrow> real" where
  "random lo hi r = r * (hi - lo) + lo"

definition random2D :: "real \<Rightarrow> vector" where
  "random2D r = (cos (r * (2 * pi)), sin (r * (2 * pi)))"

definition unit_draws :: "random_source \<Rightarrow> bool" where
  "unit_draws R = (\<forall>i. 0 \<le> R i \<and> R i < 1)"

section \<open>Particle\<close>

record particle =
  pos :: vector
  vel :: vector
  acc :: vector
  color :: color
  lifespan :: real
  decay :: real

text \<open>
  The constructor. \<open>k\<close> is the number of random values consumed before the call; the
  result carries the number consumed after it.
\<close>

definition new_particle ::
  "random_source \<Rightarrow> nat \<Rightarrow> real \<Rightarrow> real \<Rightarrow> real \<Rightarrow> bool \<Rightarrow> particle \<times> nat" where
  "new_particle R k a b hue explosion =
     (if explosion then
        (\<lparr>pos = createVector a b,
          vel = mult (random2D (R k)) (random 5 22 (R (k + 1))),
          acc = createVector 0 0,
          color = p5_color hue 255 255,
          lifespan = 255,
          decay = random 1.5 4 (R (k + 2))\<rparr>, k + 3)
      else
        (\<lparr>pos = createVector a b,
          vel = createVector 0 (random (- 12) (- 8) (R k)),
          acc = createVector 0 0,
          color = p5_color hue 255 255,
          lifespan = 255,
          decay = 0\<rparr>, k + 1))"

definition applyForce :: "vector \<Rightarrow> particle \<Rightarrow> particle" where
  "applyForce force p = p\<lparr>acc := add (acc p) force\<rparr>"

definition update :: "particle \<Rightarrow> particle" where
  "update p =
     (if lifespan p > 0 then
        let p1 = p\<lparr>vel := mult (vel p) 0.92\<rparr>;
            p2 = p1\<lparr>vel := add (vel p1) (acc p1)\<rparr>;
            p3 = p2\<lparr>pos := add (pos p2) (vel p2)\<rparr>;
            p4 = p3\<lparr>acc := mult (acc p3) 0\<rparr>
        in p4\<lparr>lifespan := lifespan p4 - decay p4\<rparr>
      else p)"

definition "show" :: "particle \<Rightarrow> command list" where
  "show p =
     (let size = (if lifespan p > 200 then 5 else 3)
      in [ColorMode HSB,
          StrokeWeight size,
          Stroke (p5_hue (color p)) 255 255 (lifespan p / 255),
          Point (fst (pos p)) (snd (pos p))])"

text \<open>\<^verbatim>\<open>Particle.done()\<close>.\<close>

definition particle_done :: "particle \<Rightarrow> bool" where
  "particle_done p = (lifespan p < 0)"

section \<open>Firework\<close>

text \<open>The field \<^verbatim>\<open>done\<close> of a burst is called \<open>fdone\<close> here.\<close>

record firework =
  particles :: "particle list"
  hue :: real
  fdone :: bool

text \<open>\<^verbatim>\<open>xs.splice(i, 1)\<close>, named \<open>splice1\<close> here: the element at index \<open>i\<close> is taken out.\<close>

definition splice1 :: "'a list \<Rightarrow> nat \<Rightarrow> 'a list" where
  "splice1 xs i = take i xs @ drop (Suc i) xs"

text \<open>
  The loop of \<^verbatim>\<open>explode\<close>: \<open>n\<close> is the number of iterations left, each pushing one
  particle made in explosion mode.
\<close>

fun explode_loop ::
  "random_source \<Rightarrow> nat \<Rightarrow> nat \<Rightarrow> real \<Rightarrow> real \<Rightarrow> real \<Rightarrow> particle list \<Rightarrow> particle list \<times> nat" where
  "explode_loop R 0 k a b h ps = (ps, k)"
| "explode_loop R (Suc n) k a b h ps =
     (let (q, k') = new_particle R k a b h True
      in explode_loop R n k' a b h (ps @ [q]))"

definition explode :: "random_source \<Rightarrow> nat \<Rightarrow> real \<Rightarrow> real \<Rightarrow> firework \<Rightarrow> firework \<times> nat" where
  "explode R k a b f =
     (let count = 120;
          (ps, k') = explode_loop R count k a b (hue f) (particles f)
      in (f\<lparr>particles := ps\<rparr>, k'))"

definition new_firework :: "random_source \<Rightarrow> nat \<Rightarrow> real \<Rightarrow> real \<Rightarrow> firework \<times> nat" where
  "new_firework R k a b =
     explode R (k + 1) a b \<lparr>particles = [], hue = random 0 360 (R k), fdone = False\<rparr>"

text \<open>
  The loop of \<^verbatim>\<open>Firework.update\<close> runs the index down from the last particle to the
  first; \<open>Suc i\<close> iterations are left when the index is \<open>i\<close>.
\<close>

definition gravity :: vector where
  "gravity = createVector 0 0.15"

text \<open>
  What one pass of \<^verbatim>\<open>Firework.update\<close> does to one particle: \<^verbatim>\<open>applyForce(gravity)\<close>, then
  \<^verbatim>\<open>update()\<close>.
\<close>

definition advance :: "particle \<Rightarrow> particle" where
  "advance p = update (applyForce gravity p)"

fun update_loop :: "nat \<Rightarrow> particle list \<Rightarrow> particle list" where
  "update_loop 0 ps = ps"
| "update_loop (Suc i) ps =
     (let ps1 = ps[i := applyForce gravity (ps ! i)];
          ps2 = ps1[i := update (ps1 ! i)];
          ps3 = (if particle_done (ps2 ! i) then splice1 ps2 i else ps2)
      in update_loop i ps3)"

definition fw_update :: "firework \<Rightarrow> firework" where
  "fw_update f =
     (let f1 = f\<lparr>particles := update_loop (length (particles f)) (particles f)\<rparr>
      in if length (particles f1) = 0 then f1\<lparr>fdone := True\<rparr> else f1)"

definition fw_show :: "firework \<Rightarrow> command list" where
  "fw_show f = concat (map show (particles f))"

section \<open>The sketch\<close>

text \<open>The declarations of \<^verbatim>\<open>types\<close>: a landmark and the two landmark indices that are read.\<close>

record coordinate =
  coord_x :: real
  coord_y :: real
  coord_z :: real

type_synonym hand = "coordinate list"

definition THUMB_TIP :: nat where
  "THUMB_TIP = 4"

definition INDEX_FINGER_TIP :: nat where
  "INDEX_FINGER_TIP = 8"

text \<open>
  Reading \<^verbatim>\<open>hand[i]\<close> beyond the end of the array gives \<^verbatim>\<open>undefined\<close>, and reading a
  field of that raises a \<^verbatim>\<open>TypeError\<close>.
\<close>

datatype error = TypeError

definition landmark :: "hand \<Rightarrow> nat \<Rightarrow> coordinate option" where
  "landmark h i = (if i < length h then Some (h ! i) else None)"

text \<open>
  The state the closures of the sketch share: the active bursts, the pinch state per hand
  index, the time of the last video frame analysed, the number of random values consumed,
  and the calls made on the drawing surface since it was last cleared.
\<close>

record sketch =
  fireworks :: "firework list"
  handPinchStates :: "nat \<rightharpoonup> bool"
  lastVideoTime :: real
  drawn :: nat
  canvas :: "command list"

text \<open>
  What one call of \<^verbatim>\<open>p.draw\<close> reads from outside: the current time of the video, the
  landmarks the detector reports for it (\<open>None\<close> when the result has none), and the
  pixel size of the drawing surface.
\<close>

record frame =
  currentTime :: real
  landmarks :: "hand list option"
  width :: real
  height :: real

text \<open>The locals of the callback of \<^verbatim>\<open>forEach\<close>.\<close>

definition distance :: "coordinate \<Rightarrow> coordinate \<Rightarrow> real" where
  "distance thumbTip indexTip =
     (let dx = coord_x thumbTip - coord_x indexTip;
          dy = coord_y thumbTip - coord_y indexTip
      in sqrt (dx * dx + dy * dy))"

definition pinchThreshold :: real where
  "pinchThreshold = 0.05"

definition isPinched :: "coordinate \<Rightarrow> coordinate \<Rightarrow> bool" where
  "isPinched thumbTip indexTip = (distance thumbTip indexTip < pinchThreshold)"

text \<open>\<^verbatim>\<open>handPinchStates.get(index) || false\<close>.\<close>

definition wasPinched :: "(nat \<rightharpoonup> bool) \<Rightarrow> nat \<Rightarrow> bool" where
  "wasPinched m index = (case m index of Some b \<Rightarrow> b | None \<Rightarrow> False)"

definition midX :: "coordinate \<Rightarrow> coordinate \<Rightarrow> real" where
  "midX thumbTip indexTip = (coord_x thumbTip + coord_x indexTip) / 2"

definition midY :: "coordinate \<Rightarrow> coordinate \<Rightarrow> real" where
  "midY thumbTip indexTip = (coord_y thumbTip + coord_y indexTip) / 2"

text \<open>The circle drawn between the finger tips as feedback.\<close>

definition feedback :: "frame \<Rightarrow> coordinate \<Rightarrow> coordinate \<Rightarrow> command list" where
  "feedback inp thumbTip indexTip =
     [Push, NoFill, Stroke 0 0 255 0.4, StrokeWeight 4] @
     (if distance thumbTip indexTip < pinchThreshold * 2 then
        [Stroke 0 255 255 0.6] @
        (if isPinched thumbTip indexTip then [Stroke 100 255 255 0.8] else []) @
        [Circle (midX thumbTip indexTip * width inp) (midY thumbTip indexTip * height inp) 20]
      else []) @
     [Pop]"

text \<open>The callback of \<^verbatim>\<open>detections.landmarks.forEach\<close>, for one hand and its index.\<close>

definition process_hand ::
  "random_source \<Rightarrow> frame \<Rightarrow> hand \<Rightarrow> nat \<Rightarrow> sketch \<Rightarrow> error + sketch" where
  "process_hand R inp h index st =
     (case landmark h THUMB_TIP of
        None \<Rightarrow> Inl TypeError
      | Some thumbTip \<Rightarrow>
          (case landmark h INDEX_FINGER_TIP of
             None \<Rightarrow> Inl TypeError
           | Some indexTip \<Rightarrow>
               (let st1 =
                      (if isPinched thumbTip indexTip \<and> \<not> wasPinched (handPinchStates st) index then
                         let a = midX thumbTip indexTip * width inp;
                             b = midY thumbTip indexTip * height inp;
                             (f, k') = new_firework R (drawn st) a b
                         in st\<lparr>fireworks := fireworks st @ [f], drawn := k'\<rparr>
                       else st);
                    st2 = st1\<lparr>handPinchStates :=
                                (handPinchStates st1)(index \<mapsto> isPinched thumbTip indexTip)\<rparr>
                in Inr (st2\<lparr>canvas := canvas st2 @ feedback inp thumbTip indexTip\<rparr>))))"

fun forEach :: "random_source \<Rightarrow> frame \<Rightarrow> hand list \<Rightarrow> nat \<Rightarrow> sketch \<Rightarrow> error + sketch" where
  "forEach R inp [] index st = Inr st"
| "forEach R inp (h # hs) index st =
     (case process_hand R inp h index st of
        Inl e \<Rightarrow> Inl e
      | Inr st' \<Rightarrow> forEach R inp hs (Suc index) st')"

text \<open>
  The detection block of \<^verbatim>\<open>p.draw\<close>. The detector and the video element exist before the
  sketch is created, so the guard is the comparison of the video time.
\<close>

definition detection :: "random_source \<Rightarrow> frame \<Rightarrow> sketch \<Rightarrow> error + sketch" where
  "detection R inp st =
     (if currentTime inp \<noteq> lastVideoTime st then
        let st1 = st\<lparr>lastVideoTime := currentTime inp\<rparr>
        in (case landmarks inp of
              None \<Rightarrow> Inr st1
            | Some hs \<Rightarrow> forEach R inp hs 0 st1)
      else Inr st)"

text \<open>
  The loop of \<^verbatim>\<open>p.draw\<close> over the bursts, from the last to the first; \<open>Suc i\<close>
  iterations are left when the index is \<open>i\<close>.
\<close>

fun fireworks_loop :: "nat \<Rightarrow> sketch \<Rightarrow> sketch" where
  "fireworks_loop 0 st = st"
| "fireworks_loop (Suc i) st =
     (let st1 = st\<lparr>fireworks := (fireworks st)[i := fw_update (fireworks st ! i)]\<rparr>;
          st2 = st1\<lparr>canvas := canvas st1 @ fw_show (fireworks st1 ! i)\<rparr>;
          st3 = (if fdone (fireworks st2 ! i)
                 then st2\<lparr>fireworks := splice1 (fireworks st2) i\<rparr> else st2)
      in fireworks_loop i st3)"

definition draw :: "random_source \<Rightarrow> frame \<Rightarrow> sketch \<Rightarrow> error + sketch" where
  "draw R inp st =
     (case detection R inp (st\<lparr>canvas := [Clear]\<rparr>) of
        Inl e \<Rightarrow> Inl e
      | Inr st' \<Rightarrow> Inr (fireworks_loop (length (fireworks st')) st'))"

text \<open>The frames of a session, one call of \<^verbatim>\<open>p.draw\<close> each.\<close>

fun run :: "random_source \<Rightarrow> sketch \<Rightarrow> frame list \<Rightarrow> error + sketch" where
  "run R st [] = Inr st"
| "run R st (inp # inps) =
     (case draw R inp st of
        Inl e \<Rightarrow> Inl e
      | Inr st' \<Rightarrow> run R st' inps)"

text \<open>The sketch as \<^verbatim>\<open>new p5(sketch, ...)\<close> leaves it before the first frame.\<close>

definition initial :: sketch where
  "initial = \<lparr>fireworks = [], handPinchStates = Map.empty, lastVideoTime = - 1,
              drawn = 0, canvas = []\<rparr>"

section \<open>Notions used in the statements\<close>

text \<open>
  A hand is well formed when it has both landmarks the callback reads; the detector
  reports 21 landmarks for every hand.
\<close>

definition well_formed :: "hand \<Rightarrow> bool" where
  "well_formed h = (THUMB_TIP < length h \<and> INDEX_FINGER_TIP < length h)"

definition thumbTip :: "hand \<Rightarrow> coordinate" where
  "thumbTip h = h ! THUMB_TIP"

definition indexTip :: "hand \<Rightarrow> coordinate" where
  "indexTip h = h ! INDEX_FINGER_TIP"

text \<open>The classification of a hand in a frame, and the point at which it spawns a burst.\<close>

definition hand_pinched :: "hand \<Rightarrow> bool" where
  "hand_pinched h = isPinched (thumbTip h) (indexTip h)"

definition spawn_point :: "frame \<Rightarrow> hand \<Rightarrow> real \<times> real" where
  "spawn_point inp h =
     ((coord_x (thumbTip h) + coord_x (indexTip h)) / 2 * width inp,
      (coord_y (thumbTip h) + coord_y (indexTip h)) / 2 * height inp)"

text \<open>
  The indices of the hands of a frame that are pinched while the state stored for their
  index, in the table \<open>m\<close> as it is when the frame starts, is not.
\<close>

definition triggered :: "(nat \<rightharpoonup> bool) \<Rightarrow> hand list \<Rightarrow> nat list" where
  "triggered m hs =
     filter (\<lambda>i. hand_pinched (hs ! i) \<and> m i \<noteq> Some True) [0..<length hs]"

text \<open>
  The bursts made one after the other at a list of points, \<open>k\<close> random values having
  been consumed before the first.
\<close>

fun bursts :: "random_source \<Rightarrow> nat \<Rightarrow> (real \<times> real) list \<Rightarrow> firework list" where
  "bursts R k [] = []"
| "bursts R k (pt # pts) =
     fst (new_firework R k (fst pt) (snd pt)) # bursts R (snd (new_firework R k (fst pt) (snd pt))) pts"

text \<open>The bursts that the detection block of a frame pushes when it starts in \<open>st\<close>.\<close>

definition spawned :: "random_source \<Rightarrow> frame \<Rightarrow> sketch \<Rightarrow> firework list" where
  "spawned R inp st =
     (case detection R inp (st\<lparr>canvas := [Clear]\<rparr>) of
        Inl e \<Rightarrow> []
      | Inr st' \<Rightarrow> drop (length (fireworks st)) (fireworks st'))"

text \<open>The hands of a frame, and the distance of the two finger tips of a hand.\<close>

definition hands :: "frame \<Rightarrow> hand list" where
  "hands inp = (case landmarks inp of None \<Rightarrow> [] | Some hs \<Rightarrow> hs)"

definition hand_distance :: "hand \<Rightarrow> real" where
  "hand_distance h = distance (thumbTip h) (indexTip h)"

text \<open>
  Consecutive frames that are all analysed: each has a video time other than that of the
  frame before it (\<open>t\<close> for the first), and reports landmarks, with all hands well formed.
\<close>

fun analysed :: "real \<Rightarrow> frame list \<Rightarrow> bool" where
  "analysed t [] = True"
| "analysed t (inp # inps) =
     (currentTime inp \<noteq> t \<and> landmarks inp \<noteq> None \<and> list_all well_formed (hands inp) \<and>
      analysed (currentTime inp) inps)"

text \<open>
  For examples: a hand of nine landmarks whose thumb tip and index tip are \<open>d\<close> apart,
  and a frame at video time \<open>t\<close> that reports this hand alone on a surface of 640 by 480.
\<close>

definition pinch_hand :: "real \<Rightarrow> hand" where
  "pinch_hand d =
     replicate 4 \<lparr>coord_x = 0, coord_y = 0, coord_z = 0\<rparr> @
     [\<lparr>coord_x = 0.5, coord_y = 0.5, coord_z = 0\<rparr>] @
     replicate 3 \<lparr>coord_x = 0, coord_y = 0, coord_z = 0\<rparr> @
     [\<lparr>coord_x = 0.5 + d, coord_y = 0.5, coord_z = 0\<rparr>]"

definition pinch_frame :: "real \<Rightarrow> real \<Rightarrow> frame" where
  "pinch_frame t d = \<lparr>currentTime = t, landmarks = Some [pinch_hand d], width = 640, height = 480\<rparr>"

text \<open>Two random sources that give the same first \<open>n\<close> values.\<close>

definition agree :: "nat \<Rightarrow> random_source \<Rightarrow> random_source \<Rightarrow> bool" where
  "agree n R R' = (\<forall>i<n. R i = R' i)"

section \<open>Iteration over the particles and over the bursts\<close>

lemma update_loop_take:
  "i \<le> length ps \<Longrightarrow>
   update_loop i ps = filter (\<lambda>q. \<not> particle_done q) (map advance (take i ps)) @ drop i ps"
proof (induction i arbitrary: ps)
  case 0
  then show ?case by simp
next
  case (Suc i)
  then have i: "i < length ps" by simp
  let ?q = "advance (ps ! i)"
  have ps: "ps = take i ps @ (ps ! i) # drop (Suc i) ps"
    using i by (simp add: id_take_nth_drop)
  show ?case
  proof (cases "particle_done ?q")
    case True
    have "update_loop (Suc i) ps = update_loop i (splice1 (ps[i := ?q]) i)"
      using i True by (simp add: Let_def advance_def)
    also have "splice1 (ps[i := ?q]) i = take i ps @ drop (Suc i) ps"
      using i by (simp add: splice1_def)
    also have "update_loop i (take i ps @ drop (Suc i) ps) =
        filter (\<lambda>q. \<not> particle_done q) (map advance (take i ps)) @ drop (Suc i) ps"
      using i by (subst Suc.IH) (simp_all add: min_def)
    finally show ?thesis
      using i True by (simp add: take_Suc_conv_app_nth)
  next
    case False
    have "update_loop (Suc i) ps = update_loop i (ps[i := ?q])"
      using i False by (simp add: Let_def advance_def)
    also have "\<dots> = filter (\<lambda>q. \<not> particle_done q) (map advance (take i ps)) @ drop i (ps[i := ?q])"
      using i by (subst Suc.IH) simp_all
    also have "drop i (ps[i := ?q]) = ?q # drop (Suc i) ps"
      using i by (simp add: Cons_nth_drop_Suc[symmetric])
    finally show ?thesis
      using i False by (simp add: take_Suc_conv_app_nth)
  qed
qed

lemma update_loop_filter:
  "update_loop (length ps) ps = filter (\<lambda>q. \<not> particle_done q) (map advance ps)"
  by (simp add: update_loop_take)

lemma particles_fw_update:
  "particles (fw_update f) = filter (\<lambda>q. \<not> particle_done q) (map advance (particles f))"
  by (simp add: fw_update_def Let_def update_loop_filter)

lemma fdone_fw_update:
  "fdone (fw_update f) = (fdone f \<or> particles (fw_update f) = [])"
  by (simp add: fw_update_def Let_def)

lemma hue_fw_update: "hue (fw_update f) = hue f"
  by (simp add: fw_update_def Let_def)

lemma lifespan_advance:
  "lifespan (advance p) = (if lifespan p > 0 then lifespan p - decay p else lifespan p)"
  by (simp add: advance_def update_def applyForce_def Let_def)

lemma decay_advance: "decay (advance p) = decay p"
  by (simp add: advance_def update_def applyForce_def Let_def)

lemma color_advance: "color (advance p) = color p"
  by (simp add: advance_def update_def applyForce_def Let_def)

lemma decay_advances: "decay ((advance ^^ n) p) = decay p"
  by (induction n) (simp_all add: decay_advance)

lemma filter_advance_alive:
  "filter (\<lambda>q. 0 \<le> lifespan q) (map advance (filter (\<lambda>q. 0 \<le> lifespan q) ps)) =
   filter (\<lambda>q. 0 \<le> lifespan q) (map advance ps)"
  by (induction ps) (auto simp: lifespan_advance)

lemma particles_fw_updates:
  "particles ((fw_update ^^ Suc n) f) =
   filter (\<lambda>q. 0 \<le> lifespan q) (map (advance ^^ Suc n) (particles f))"
proof (induction n)
  case 0
  show ?case by (simp add: particles_fw_update particle_done_def not_less)
next
  case (Suc n)
  have "particles ((fw_update ^^ Suc (Suc n)) f) =
      filter (\<lambda>q. 0 \<le> lifespan q) (map advance (particles ((fw_update ^^ Suc n) f)))"
    by (simp add: particles_fw_update particle_done_def not_less)
  also have "\<dots> = filter (\<lambda>q. 0 \<le> lifespan q) (map advance (map (advance ^^ Suc n) (particles f)))"
    unfolding Suc.IH by (rule filter_advance_alive)
  finally show ?case by (simp add: comp_def)
qed

lemma explode_loop_map:
  "explode_loop R n k a b h ps =
   (ps @ map (\<lambda>i. fst (new_particle R (k + 3 * i) a b h True)) [0..<n], k + 3 * n)"
proof (induction n arbitrary: k ps)
  case 0
  show ?case by simp
next
  case (Suc n)
  have q: "new_particle R k a b h True = (fst (new_particle R k a b h True), k + 3)"
    by (simp add: new_particle_def)
  have "explode_loop R (Suc n) k a b h ps =
      explode_loop R n (k + 3) a b h (ps @ [fst (new_particle R k a b h True)])"
    by (subst explode_loop.simps, subst q) simp
  also have "\<dots> = ((ps @ [fst (new_particle R k a b h True)]) @
      map (\<lambda>i. fst (new_particle R (k + 3 + 3 * i) a b h True)) [0..<n], k + 3 + 3 * n)"
    by (rule Suc.IH)
  also have "map (\<lambda>i. fst (new_particle R (k + 3 + 3 * i) a b h True)) [0..<n] =
      map (\<lambda>i. fst (new_particle R (k + 3 * i) a b h True)) (map Suc [0..<n])"
    by (simp add: add.assoc)
  finally show ?case
    by (simp add: map_Suc_upt upt_conv_Cons del: upt_Suc)
qed

lemma new_firework_eq:
  "new_firework R k a b =
   (\<lparr>particles = map (\<lambda>i. fst (new_particle R (k + 1 + 3 * i) a b (random 0 360 (R k)) True)) [0..<120],
     hue = random 0 360 (R k), fdone = False\<rparr>, k + 361)"
  by (simp add: new_firework_def explode_def explode_loop_map del: upt_Suc)

lemma random_range:
  "0 \<le> r \<Longrightarrow> r < 1 \<Longrightarrow> lo < hi \<Longrightarrow> lo \<le> random lo hi r \<and> random lo hi r < hi"
proof -
  assume r: "0 \<le> r" "r < 1" and lh: "lo < hi"
  have "0 \<le> r * (hi - lo)" using r lh by simp
  moreover have "r * (hi - lo) < 1 * (hi - lo)"
    using r lh by (intro mult_strict_right_mono) simp_all
  ultimately show ?thesis by (simp add: random_def)
qed

lemma random2D_unit: "(fst (random2D r))\<^sup>2 + (snd (random2D r))\<^sup>2 = 1"
  by (simp add: random2D_def)

lemma nth_particles_new_firework:
  "i < 120 \<Longrightarrow>
   particles (fst (new_firework R k a b)) ! i =
   fst (new_particle R (k + 1 + 3 * i) a b (random 0 360 (R k)) True)"
  by (simp add: new_firework_eq del: upt_Suc)

text \<open>
  Claim C6. A burst made at the point \<open>(a, b)\<close> consumes 361 random values and holds
  exactly 120 particles. Its hue comes from the first value. The particle at index \<open>i\<close>
  starts at the spawn point with lifespan 255; its velocity is the unit vector drawn from
  one value, scaled by a speed drawn from the next, which lies in \<open>[5, 22)\<close>; its decay is
  drawn from a third value and lies in \<open>[1.5, 4)\<close>; its colour carries the hue of the burst.
\<close>

theorem burst_construction:
  assumes "unit_draws R"
  shows "\<exists>f. new_firework R k a b = (f, k + 361) \<and>
      length (particles f) = 120 \<and>
      \<not> fdone f \<and>
      hue f = random 0 360 (R k) \<and> 0 \<le> hue f \<and> hue f < 360 \<and>
      (\<forall>i<120.
         pos (particles f ! i) = (a, b) \<and>
         acc (particles f ! i) = (0, 0) \<and>
         lifespan (particles f ! i) = 255 \<and>
         vel (particles f ! i) =
           mult (random2D (R (k + 1 + 3 * i))) (random 5 22 (R (k + 2 + 3 * i))) \<and>
         (fst (random2D (R (k + 1 + 3 * i))))\<^sup>2 + (snd (random2D (R (k + 1 + 3 * i))))\<^sup>2 = 1 \<and>
         5 \<le> random 5 22 (R (k + 2 + 3 * i)) \<and> random 5 22 (R (k + 2 + 3 * i)) < 22 \<and>
         decay (particles f ! i) = random 1.5 4 (R (k + 3 + 3 * i)) \<and>
         1.5 \<le> decay (particles f ! i) \<and> decay (particles f ! i) < 4 \<and>
         p5_hue (color (particles f ! i)) = hue f)"
proof -
  let ?f = "fst (new_firework R k a b)"
  have draws: "\<And>j. 0 \<le> R j \<and> R j < 1"
    using assms by (simp add: unit_draws_def)
  have eq: "new_firework R k a b = (?f, k + 361)"
    by (simp add: new_firework_eq)
  have len: "length (particles ?f) = 120"
    by (simp add: new_firework_eq)
  have flag: "\<not> fdone ?f"
    by (simp add: new_firework_eq)
  have h: "hue ?f = random 0 360 (R k)"
    by (simp add: new_firework_eq)
  have hr: "0 \<le> hue ?f \<and> hue ?f < 360"
    unfolding h using draws random_range [of "R k" 0 360] by simp
  have each: "pos (particles ?f ! i) = (a, b) \<and>
         acc (particles ?f ! i) = (0, 0) \<and>
         lifespan (particles ?f ! i) = 255 \<and>
         vel (particles ?f ! i) =
           mult (random2D (R (k + 1 + 3 * i))) (random 5 22 (R (k + 2 + 3 * i))) \<and>
         (fst (random2D (R (k + 1 + 3 * i))))\<^sup>2 + (snd (random2D (R (k + 1 + 3 * i))))\<^sup>2 = 1 \<and>
         5 \<le> random 5 22 (R (k + 2 + 3 * i)) \<and> random 5 22 (R (k + 2 + 3 * i)) < 22 \<and>
         decay (particles ?f ! i) = random 1.5 4 (R (k + 3 + 3 * i)) \<and>
         1.5 \<le> decay (particles ?f ! i) \<and> decay (particles ?f ! i) < 4 \<and>
         p5_hue (color (particles ?f ! i)) = hue ?f" if i: "i < 120" for i
  proof -
    have p: "particles ?f ! i = fst (new_particle R (k + 1 + 3 * i) a b (random 0 360 (R k)) True)"
      using i by (rule nth_particles_new_firework)
    have s: "5 \<le> random 5 22 (R (k + 2 + 3 * i)) \<and> random 5 22 (R (k + 2 + 3 * i)) < 22"
      using draws random_range [of "R (k + 2 + 3 * i)" 5 22] by simp
    have d: "1.5 \<le> random 1.5 4 (R (k + 3 + 3 * i)) \<and> random 1.5 4 (R (k + 3 + 3 * i)) < 4"
      using draws random_range [of "R (k + 3 + 3 * i)" "1.5" 4] by simp
    have k2: "k + 1 + 3 * i + 1 = k + 2 + 3 * i" and k3: "k + 1 + 3 * i + 2 = k + 3 + 3 * i"
      by simp_all
    show ?thesis
      unfolding p h using s d
      by (simp only: k2 k3 new_particle_def if_True fst_conv particle.simps
            createVector_def p5_color_def p5_hue_def random2D_unit)
  qed
  show ?thesis
    using eq len flag h hr each by blast
qed

theorem burst_construction_witness:
  "unit_draws (\<lambda>_. 0) \<and> length (particles (fst (new_firework (\<lambda>_. 0) 0 320 240))) = 120 \<and>
   vel (particles (fst (new_firework (\<lambda>_. 0) 0 320 240)) ! 7) = (5, 0) \<and>
   decay (particles (fst (new_firework (\<lambda>_. 0) 0 320 240)) ! 7) = 1.5"
proof -
  have u: "unit_draws (\<lambda>_. 0)" by (simp add: unit_draws_def)
  from burst_construction [OF u, of 0 320 240]
  show ?thesis using u by (auto simp: random_def random2D_def mult_def)
qed

lemma fireworks_loop_take:
  "i \<le> length (fireworks st) \<Longrightarrow>
   fireworks_loop i st =
   st\<lparr>fireworks := filter (\<lambda>g. \<not> fdone g) (map fw_update (take i (fireworks st))) @
                     drop i (fireworks st),
      canvas := canvas st @ concat (map (\<lambda>g. fw_show (fw_update g)) (rev (take i (fireworks st))))\<rparr>"
proof (induction i arbitrary: st)
  case 0
  show ?case by simp
next
  case (Suc i)
  let ?fs = "fireworks st"
  let ?g = "fw_update (?fs ! i)"
  from Suc.prems have i: "i < length ?fs" by simp
  have tk: "take (Suc i) ?fs = take i ?fs @ [?fs ! i]"
    using i by (simp add: take_Suc_conv_app_nth)
  show ?case
  proof (cases "fdone ?g")
    case True
    let ?st3 = "st\<lparr>canvas := canvas st @ fw_show ?g, fireworks := take i ?fs @ drop (Suc i) ?fs\<rparr>"
    have "fireworks_loop (Suc i) st = fireworks_loop i ?st3"
      using i True by (simp add: Let_def splice1_def)
    also have "\<dots> = ?st3\<lparr>fireworks := filter (\<lambda>g. \<not> fdone g) (map fw_update (take i (fireworks ?st3))) @
                     drop i (fireworks ?st3),
      canvas := canvas ?st3 @ concat (map (\<lambda>g. fw_show (fw_update g)) (rev (take i (fireworks ?st3))))\<rparr>"
      using i by (intro Suc.IH) simp
    finally show ?thesis
      using i True by (simp add: tk min_def)
  next
    case False
    let ?st3 = "st\<lparr>fireworks := ?fs[i := ?g], canvas := canvas st @ fw_show ?g\<rparr>"
    have dr: "drop i (?fs[i := ?g]) = ?g # drop (Suc i) ?fs"
      using i by (simp add: Cons_nth_drop_Suc[symmetric])
    have "fireworks_loop (Suc i) st = fireworks_loop i ?st3"
      using i False by (simp add: Let_def)
    also have "\<dots> = ?st3\<lparr>fireworks := filter (\<lambda>g. \<not> fdone g) (map fw_update (take i (fireworks ?st3))) @
                     drop i (fireworks ?st3),
      canvas := canvas ?st3 @ concat (map (\<lambda>g. fw_show (fw_update g)) (rev (take i (fireworks ?st3))))\<rparr>"
      using i by (intro Suc.IH) simp
    finally show ?thesis
      using i False by (simp add: tk dr)
  qed
qed

lemma fireworks_loop_filter:
  "fireworks_loop (length (fireworks st)) st =
   st\<lparr>fireworks := filter (\<lambda>g. \<not> fdone g) (map fw_update (fireworks st)),
      canvas := canvas st @ concat (map (\<lambda>g. fw_show (fw_update g)) (rev (fireworks st)))\<rparr>"
  by (simp add: fireworks_loop_take)

lemma draw_eq:
  "draw R inp st =
   (case detection R inp (st\<lparr>canvas := [Clear]\<rparr>) of
      Inl e \<Rightarrow> Inl e
    | Inr st' \<Rightarrow>
        Inr (st'\<lparr>fireworks := filter (\<lambda>g. \<not> fdone g) (map fw_update (fireworks st')),
                 canvas := canvas st' @
                   concat (map (\<lambda>g. fw_show (fw_update g)) (rev (fireworks st')))\<rparr>))"
  by (simp add: draw_def fireworks_loop_filter split: sum.splits)

section \<open>Particles and bursts over time\<close>

lemma advance_eq:
  "advance p =
   (if 0 < lifespan p then
      p\<lparr>vel := (0.92 * fst (vel p) + fst (acc p), 0.92 * snd (vel p) + (snd (acc p) + 0.15)),
        pos := (fst (pos p) + (0.92 * fst (vel p) + fst (acc p)),
                snd (pos p) + (0.92 * snd (vel p) + (snd (acc p) + 0.15))),
        acc := (0, 0),
        lifespan := lifespan p - decay p\<rparr>
    else p\<lparr>acc := (fst (acc p), snd (acc p) + 0.15)\<rparr>)"
  by (simp add: advance_def update_def applyForce_def gravity_def createVector_def add_def
      mult_def Let_def mult.commute)

text \<open>
  Claim C7. One pass of \<^verbatim>\<open>Firework.update\<close> keeps the particles that are not done after
  being advanced. Advancing a particle adds the gravity vector \<open>(0, 0.15)\<close> to its
  accumulated force and then runs \<^verbatim>\<open>update\<close>: with a positive lifespan the new velocity
  is 0.92 times the old one plus the accumulated force, the new position is the old one
  plus the new velocity, the lifespan goes down by the decay and the accumulated force
  is zero again; otherwise only the accumulated force has changed.
\<close>

theorem burst_update_step:
  "particles (fw_update f) = filter (\<lambda>q. \<not> lifespan q < 0) (map advance (particles f)) \<and>
   advance p = update (p\<lparr>acc := (fst (acc p) + 0, snd (acc p) + 0.15)\<rparr>) \<and>
   advance p =
   (if 0 < lifespan p then
      p\<lparr>vel := (0.92 * fst (vel p) + fst (acc p), 0.92 * snd (vel p) + (snd (acc p) + 0.15)),
        pos := (fst (pos p) + (0.92 * fst (vel p) + fst (acc p)),
                snd (pos p) + (0.92 * snd (vel p) + (snd (acc p) + 0.15))),
        acc := (0, 0),
        lifespan := lifespan p - decay p\<rparr>
    else p\<lparr>acc := (fst (acc p), snd (acc p) + 0.15)\<rparr>)"
proof -
  have "particles (fw_update f) = filter (\<lambda>q. \<not> lifespan q < 0) (map advance (particles f))"
    using particles_fw_update [of f] by (simp add: particle_done_def)
  moreover have "advance p = update (p\<lparr>acc := (fst (acc p) + 0, snd (acc p) + 0.15)\<rparr>)"
    by (simp add: advance_def applyForce_def gravity_def createVector_def add_def)
  ultimately show ?thesis
    using advance_eq [of p] by simp
qed

text \<open>
  Claim C1. For the particle at any index of a new burst, each pass made with a positive
  lifespan strictly lowers the lifespan. One pass of \<^verbatim>\<open>Firework.update\<close> keeps exactly the
  particles whose lifespan after the pass is not below 0, and so do \<open>n + 1\<close> passes: a
  particle is in the collection afterwards if and only if its lifespan is not below 0 then.
\<close>

theorem particle_lifespan_and_removal:
  assumes "unit_draws R" and "i < 120"
  shows "(0 < lifespan ((advance ^^ n) (particles (fst (new_firework R k a b)) ! i)) \<longrightarrow>
           lifespan ((advance ^^ Suc n) (particles (fst (new_firework R k a b)) ! i))
             < lifespan ((advance ^^ n) (particles (fst (new_firework R k a b)) ! i))) \<and>
         particles (fw_update f) =
           filter (\<lambda>q. \<not> lifespan q < 0) (map advance (particles f)) \<and>
         particles ((fw_update ^^ Suc n) f) =
           filter (\<lambda>q. \<not> lifespan q < 0) (map (advance ^^ Suc n) (particles f))"
proof -
  let ?p = "particles (fst (new_firework R k a b)) ! i"
  have r: "0 \<le> R (k + 3 + 3 * i) \<and> R (k + 3 + 3 * i) < 1"
    using assms(1) by (simp add: unit_draws_def)
  have "?p = fst (new_particle R (k + 1 + 3 * i) a b (random 0 360 (R k)) True)"
    using assms(2) by (rule nth_particles_new_firework)
  then have "decay ?p = random 1.5 4 (R (k + 1 + 3 * i + 2))"
    by (simp only: new_particle_def if_True fst_conv particle.simps)
  also have "k + 1 + 3 * i + 2 = k + 3 + 3 * i" by simp
  finally have "1.5 \<le> decay ?p"
    using r random_range [of "R (k + 3 + 3 * i)" "1.5" 4] by simp
  then have d: "0 < decay ((advance ^^ n) ?p)"
    by (simp add: decay_advances)
  have "0 < lifespan ((advance ^^ n) ?p) \<longrightarrow>
      lifespan ((advance ^^ Suc n) ?p) < lifespan ((advance ^^ n) ?p)"
    using d by (simp add: lifespan_advance)
  moreover have "particles (fw_update f) =
      filter (\<lambda>q. \<not> lifespan q < 0) (map advance (particles f))"
    using particles_fw_update [of f] by (simp add: particle_done_def)
  moreover have "particles ((fw_update ^^ Suc n) f) =
      filter (\<lambda>q. \<not> lifespan q < 0) (map (advance ^^ Suc n) (particles f))"
    using particles_fw_updates [of n f] by (simp add: not_less)
  ultimately show ?thesis by blast
qed

lemma lifespan_first_particle:
  "i < 120 \<Longrightarrow> lifespan (particles (fst (new_firework R k a b)) ! i) = 255"
  by (simp only: nth_particles_new_firework new_particle_def if_True fst_conv particle.simps)

theorem particle_lifespan_and_removal_witness:
  "unit_draws (\<lambda>_. 0) \<and> (3::nat) < 120 \<and>
   0 < lifespan ((advance ^^ 0) (particles (fst (new_firework (\<lambda>_. 0) 0 10 20)) ! 3)) \<and>
   lifespan ((advance ^^ Suc 0) (particles (fst (new_firework (\<lambda>_. 0) 0 10 20)) ! 3))
     < lifespan ((advance ^^ 0) (particles (fst (new_firework (\<lambda>_. 0) 0 10 20)) ! 3))"
proof -
  have u: "unit_draws (\<lambda>_. 0)" by (simp add: unit_draws_def)
  have i: "(3::nat) < 120" by simp
  have l: "0 < lifespan ((advance ^^ 0) (particles (fst (new_firework (\<lambda>_. 0) 0 10 20)) ! 3))"
    by (simp add: lifespan_first_particle)
  from particle_lifespan_and_removal [OF u i, of 0 0 10 20] l
  show ?thesis using u by simp
qed

lemma hue_fw_updates: "hue ((fw_update ^^ n) f) = hue f"
  by (induction n) (simp_all add: hue_fw_update)

lemma color_advances: "color ((advance ^^ n) p) = color p"
  by (induction n) (simp_all add: color_advance)

lemma color_new_firework:
  assumes "p \<in> set (particles (fst (new_firework R k a b)))"
  shows "color p = p5_color (hue (fst (new_firework R k a b))) 255 255"
proof -
  from assms obtain i where "i < 120"
    and "p = fst (new_particle R (k + 1 + 3 * i) a b (random 0 360 (R k)) True)"
    by (auto simp: new_firework_eq simp del: upt_Suc)
  then show ?thesis
    by (simp add: new_firework_eq new_particle_def del: upt_Suc)
qed

text \<open>
  Claim C8. A particle that is shown after \<open>n + 1\<close> passes of its burst has a lifespan of
  at least 0, and showing it sets the stroke weight to 5 when the lifespan is above 200
  and to 3 otherwise, sets the stroke to the hue of the burst with 255 for saturation and
  brightness and the lifespan divided by 255 for alpha, and draws one point at its
  position. At lifespan 255 the alpha is 1 and the weight 5; at lifespan 0 the alpha is 0
  and the weight 3. Showing a burst shows its particles in order.
\<close>

theorem particle_rendering:
  assumes "p \<in> set (particles ((fw_update ^^ Suc n) (fst (new_firework R k a b))))"
  shows "0 \<le> lifespan p \<and>
         show p =
           [ColorMode HSB,
            StrokeWeight (if 200 < lifespan p then 5 else 3),
            Stroke (hue ((fw_update ^^ Suc n) (fst (new_firework R k a b)))) 255 255
              (lifespan p / 255),
            Point (fst (pos p)) (snd (pos p))] \<and>
         show (r\<lparr>lifespan := 255\<rparr>) =
           [ColorMode HSB, StrokeWeight 5, Stroke (p5_hue (color r)) 255 255 1,
            Point (fst (pos r)) (snd (pos r))] \<and>
         show (r\<lparr>lifespan := 0\<rparr>) =
           [ColorMode HSB, StrokeWeight 3, Stroke (p5_hue (color r)) 255 255 0,
            Point (fst (pos r)) (snd (pos r))] \<and>
         fw_show ((fw_update ^^ Suc n) (fst (new_firework R k a b))) =
           concat (map show (particles ((fw_update ^^ Suc n) (fst (new_firework R k a b)))))"
proof -
  let ?f = "fst (new_firework R k a b)"
  from assms obtain q where q: "q \<in> set (particles ?f)"
    and p: "p = (advance ^^ Suc n) q" and l: "0 \<le> lifespan p"
    unfolding particles_fw_updates by auto
  have "color p = color q"
    unfolding p by (rule color_advances)
  also have "\<dots> = p5_color (hue ?f) 255 255"
    using q by (rule color_new_firework)
  finally have "p5_hue (color p) = hue ((fw_update ^^ Suc n) ?f)"
    by (simp add: p5_hue_def p5_color_def hue_fw_updates del: funpow.simps)
  then have "show p =
           [ColorMode HSB,
            StrokeWeight (if 200 < lifespan p then 5 else 3),
            Stroke (hue ((fw_update ^^ Suc n) ?f)) 255 255 (lifespan p / 255),
            Point (fst (pos p)) (snd (pos p))]"
    by (simp add: show_def del: funpow.simps)
  moreover have "show (r\<lparr>lifespan := 255\<rparr>) =
           [ColorMode HSB, StrokeWeight 5, Stroke (p5_hue (color r)) 255 255 1,
            Point (fst (pos r)) (snd (pos r))]"
    and "show (r\<lparr>lifespan := 0\<rparr>) =
           [ColorMode HSB, StrokeWeight 3, Stroke (p5_hue (color r)) 255 255 0,
            Point (fst (pos r)) (snd (pos r))]"
    by (simp_all add: show_def)
  ultimately show ?thesis
    using l by (simp add: fw_show_def del: funpow.simps)
qed

lemma advance_alive_mem:
  "q \<in> set (particles f) \<Longrightarrow> 0 \<le> lifespan (advance q) \<Longrightarrow>
   advance q \<in> set (particles (fw_update f))"
  by (simp add: particles_fw_update particle_done_def not_less)

theorem particle_rendering_witness:
  "advance (particles (fst (new_firework (\<lambda>_. 0) 0 10 20)) ! 0)
     \<in> set (particles ((fw_update ^^ Suc 0) (fst (new_firework (\<lambda>_. 0) 0 10 20)))) \<and>
   show (advance (particles (fst (new_firework (\<lambda>_. 0) 0 10 20)) ! 0)) =
     [ColorMode HSB, StrokeWeight 5, Stroke 0 255 255 (253.5 / 255), Point 14.6 20.15]"
proof -
  let ?f = "fst (new_firework (\<lambda>_. 0) 0 10 20)"
  let ?q = "particles ?f ! 0"
  have q: "?q = \<lparr>pos = (10, 20), vel = (5, 0), acc = (0, 0), color = (0, 255, 255),
                 lifespan = 255, decay = 1.5\<rparr>"
    by (simp add: nth_particles_new_firework new_particle_def createVector_def mult_def
        random2D_def random_def p5_color_def)
  have a: "advance ?q = \<lparr>pos = (14.6, 20.15), vel = (4.6, 0.15), acc = (0, 0),
                 color = (0, 255, 255), lifespan = 253.5, decay = 1.5\<rparr>"
    unfolding q by (simp add: advance_eq)
  have "?q \<in> set (particles ?f)"
    by (rule nth_mem) (simp add: new_firework_eq)
  moreover have "0 \<le> lifespan (advance ?q)"
    unfolding a by simp
  ultimately have "advance ?q \<in> set (particles (fw_update ?f))"
    by (rule advance_alive_mem)
  then have m: "advance ?q \<in> set (particles ((fw_update ^^ Suc 0) ?f))"
    by simp
  have h: "hue ((fw_update ^^ Suc 0) ?f) = 0"
    by (simp add: hue_fw_update new_firework_eq random_def)
  from particle_rendering [OF m] m show ?thesis
    unfolding h by (simp add: a)
qed

lemma advances_stalled:
  "lifespan p = 0 \<Longrightarrow>
   (advance ^^ n) p = p\<lparr>acc := (fst (acc p), snd (acc p) + real n * 0.15)\<rparr>"
proof (induction n)
  case 0
  show ?case by simp
next
  case (Suc n)
  then show ?case
    by (simp add: advance_eq algebra_simps)
qed

lemma stalled_kept:
  "lifespan p = 0 \<Longrightarrow> p \<in> set (particles f) \<Longrightarrow>
   (advance ^^ n) p \<in> set (particles ((fw_update ^^ n) f))"
proof (induction n)
  case 0
  then show ?case by simp
next
  case (Suc n)
  have "lifespan ((advance ^^ Suc n) p) = 0"
    using Suc.prems(1) by (simp add: advances_stalled del: funpow.simps)
  then show ?case
    using Suc.prems(2) unfolding particles_fw_updates by simp
qed

lemma fdone_fw_updates:
  "fdone ((fw_update ^^ n) f) \<Longrightarrow> fdone f \<or> particles ((fw_update ^^ n) f) = []"
proof (induction n)
  case 0
  then show ?case by simp
next
  case (Suc n)
  show ?case
  proof (cases "fdone ((fw_update ^^ n) f)")
    case True
    with Suc.IH have "fdone f \<or> particles ((fw_update ^^ n) f) = []" by simp
    then show ?thesis by (auto simp: particles_fw_update)
  next
    case False
    with Suc.prems show ?thesis by (simp add: fdone_fw_update)
  qed
qed

text \<open>
  Claim C10. A particle whose lifespan is exactly 0 is left as it is by \<^verbatim>\<open>update\<close> and is
  not done. After \<open>n\<close> passes of its burst only its accumulated force has changed, by
  \<open>n\<close> times the gravity vector, which exceeds every bound; the particle is still in the
  collection, the burst is not marked complete, and the loop of \<^verbatim>\<open>p.draw\<close> keeps the burst.
\<close>

theorem stalled_particle:
  assumes "lifespan p = 0" and "p \<in> set (particles f)" and "\<not> fdone f"
  shows "update p = p \<and> \<not> particle_done p \<and>
         (advance ^^ n) p = p\<lparr>acc := (fst (acc p), snd (acc p) + real n * 0.15)\<rparr> \<and>
         (advance ^^ n) p \<in> set (particles ((fw_update ^^ n) f)) \<and>
         \<not> fdone ((fw_update ^^ n) f) \<and>
         (\<exists>m. B < snd (acc ((advance ^^ m) p))) \<and>
         (f \<in> set (fireworks st) \<longrightarrow>
            fw_update f \<in> set (fireworks (fireworks_loop (length (fireworks st)) st)))"
proof -
  have u: "update p = p \<and> \<not> particle_done p"
    using assms(1) by (simp add: update_def particle_done_def)
  have a: "(advance ^^ m) p = p\<lparr>acc := (fst (acc p), snd (acc p) + real m * 0.15)\<rparr>" for m
    using assms(1) by (rule advances_stalled)
  have k: "(advance ^^ m) p \<in> set (particles ((fw_update ^^ m) f))" for m
    using assms(1,2) by (rule stalled_kept)
  have d: "\<not> fdone ((fw_update ^^ m) f)" for m
    using fdone_fw_updates [of m f] k [of m] assms(3) by auto
  obtain m :: nat where m: "(B - snd (acc p)) / 0.15 < real m"
    using reals_Archimedean2 by blast
  then have "B - snd (acc p) < real m * 0.15"
    by (simp add: pos_divide_less_eq)
  then have b: "B < snd (acc ((advance ^^ m) p))"
    by (simp add: a)
  have t: "fw_update f \<in> set (fireworks (fireworks_loop (length (fireworks st)) st))"
    if "f \<in> set (fireworks st)"
    using that d [of 1] by (simp add: fireworks_loop_filter)
  from u a k d b t show ?thesis by blast
qed

theorem stalled_particle_witness:
  "update \<lparr>pos = (1, 2), vel = (3, 4), acc = (0, 0), color = (0, 255, 255),
           lifespan = 0, decay = 1.5\<rparr> =
     \<lparr>pos = (1, 2), vel = (3, 4), acc = (0, 0), color = (0, 255, 255),
      lifespan = 0, decay = 1.5\<rparr> \<and>
   \<not> fdone ((fw_update ^^ 7)
     \<lparr>particles = [\<lparr>pos = (1, 2), vel = (3, 4), acc = (0, 0), color = (0, 255, 255),
                    lifespan = 0, decay = 1.5\<rparr>], hue = 0, fdone = False\<rparr>) \<and>
   fireworks (fireworks_loop 1 (initial\<lparr>fireworks :=
     [\<lparr>particles = [\<lparr>pos = (1, 2), vel = (3, 4), acc = (0, 0), color = (0, 255, 255),
                    lifespan = 0, decay = 1.5\<rparr>], hue = 0, fdone = False\<rparr>]\<rparr>)) \<noteq> []"
proof -
  define p where "p = \<lparr>pos = (1, 2), vel = (3, 4), acc = (0, 0), color = (0, 255, 255),
           lifespan = 0, decay = 1.5\<rparr>"
  define f where "f = \<lparr>particles = [p], hue = 0, fdone = False\<rparr>"
  define st where "st = initial\<lparr>fireworks := [f]\<rparr>"
  have h: "lifespan p = 0" "p \<in> set (particles f)" "\<not> fdone f" "f \<in> set (fireworks st)"
    by (simp_all add: p_def f_def st_def)
  from stalled_particle [OF h(1,2,3), of 7 0 st] h(4)
  have "update p = p" and "\<not> fdone ((fw_update ^^ 7) f)"
    and "fw_update f \<in> set (fireworks (fireworks_loop (length (fireworks st)) st))"
    by blast+
  moreover have "length (fireworks st) = 1"
    by (simp add: st_def)
  ultimately have "update p = p \<and> \<not> fdone ((fw_update ^^ 7) f) \<and>
      fireworks (fireworks_loop 1 st) \<noteq> []"
    by auto
  then show ?thesis
    unfolding p_def f_def st_def .
qed

section \<open>The pinch trigger\<close>

lemma landmark_well_formed:
  "well_formed h \<Longrightarrow> landmark h THUMB_TIP = Some (thumbTip h) \<and>
     landmark h INDEX_FINGER_TIP = Some (indexTip h)"
  by (simp add: well_formed_def landmark_def thumbTip_def indexTip_def)

lemma wasPinched_iff: "wasPinched m i \<longleftrightarrow> m i = Some True"
  by (simp add: wasPinched_def split: option.splits)

lemma process_hand_eq:
  assumes "well_formed h"
  shows "process_hand R inp h index st =
    Inr (st\<lparr>fireworks := fireworks st @
               (if hand_pinched h \<and> handPinchStates st index \<noteq> Some True
                then [fst (new_firework R (drawn st) (fst (spawn_point inp h)) (snd (spawn_point inp h)))]
                else []),
            handPinchStates := (handPinchStates st)(index \<mapsto> hand_pinched h),
            drawn := drawn st +
               (if hand_pinched h \<and> handPinchStates st index \<noteq> Some True then 361 else 0),
            canvas := canvas st @ feedback inp (thumbTip h) (indexTip h)\<rparr>)"
  using landmark_well_formed [OF assms]
  by (simp add: process_hand_def Let_def hand_pinched_def wasPinched_iff spawn_point_def
      midX_def midY_def new_firework_eq)

lemma filter_upt_Suc:
  "filter P [0..<Suc n] = (if P 0 then [0] else []) @ map Suc (filter (\<lambda>i. P (Suc i)) [0..<n])"
proof -
  have "[0..<Suc n] = 0 # map Suc [0..<n]"
    by (simp add: upt_conv_Cons map_Suc_upt del: upt_Suc)
  then show ?thesis
    by (simp add: filter_map comp_def del: upt_Suc)
qed

lemma bursts_append:
  "bursts R k (xs @ ys) = bursts R k xs @ bursts R (k + 361 * length xs) ys"
  by (induction xs arbitrary: k) (simp_all add: new_firework_eq add.assoc)

lemma snd_new_firework: "snd (new_firework R k a b) = k + 361"
  by (simp add: new_firework_eq)

lemma forEach_from:
  assumes "\<forall>h\<in>set hs. well_formed h"
  shows "forEach R inp hs n st =
    Inr (st\<lparr>fireworks := fireworks st @ bursts R (drawn st)
               (map (\<lambda>i. spawn_point inp (hs ! i))
                  (filter (\<lambda>i. hand_pinched (hs ! i) \<and> handPinchStates st (n + i) \<noteq> Some True)
                     [0..<length hs])),
            handPinchStates := (\<lambda>j. if n \<le> j \<and> j < n + length hs
                                     then Some (hand_pinched (hs ! (j - n)))
                                     else handPinchStates st j),
            drawn := drawn st + 361 * length
                  (filter (\<lambda>i. hand_pinched (hs ! i) \<and> handPinchStates st (n + i) \<noteq> Some True)
                     [0..<length hs]),
            canvas := canvas st @ concat (map (\<lambda>h. feedback inp (thumbTip h) (indexTip h)) hs)\<rparr>)"
  using assms
proof (induction hs arbitrary: n st)
  case Nil
  have "(\<lambda>j. if n \<le> j \<and> j < n + length ([] :: hand list)
              then Some (hand_pinched ([] ! (j - n)))
              else handPinchStates st j) = handPinchStates st"
    by (auto simp: fun_eq_iff)
  then show ?case by simp
next
  case (Cons h hs)
  let ?t = "hand_pinched h \<and> handPinchStates st n \<noteq> Some True"
  let ?st1 = "st\<lparr>fireworks := fireworks st @
               (if ?t
                then [fst (new_firework R (drawn st) (fst (spawn_point inp h)) (snd (spawn_point inp h)))]
                else []),
            handPinchStates := (handPinchStates st)(n \<mapsto> hand_pinched h),
            drawn := drawn st + (if ?t then 361 else 0),
            canvas := canvas st @ feedback inp (thumbTip h) (indexTip h)\<rparr>"
  let ?P = "\<lambda>i. hand_pinched (hs ! i) \<and> handPinchStates st (Suc n + i) \<noteq> Some True"
  have h: "well_formed h" and hs: "\<forall>h\<in>set hs. well_formed h"
    using Cons.prems by simp_all
  have step: "forEach R inp (h # hs) n st = forEach R inp hs (Suc n) ?st1"
    by (simp add: process_hand_eq [OF h])
  have P1: "(\<lambda>i. hand_pinched (hs ! i) \<and> handPinchStates ?st1 (Suc n + i) \<noteq> Some True) = ?P"
    by (simp add: fun_eq_iff)
  have filt: "filter (\<lambda>i. hand_pinched ((h # hs) ! i) \<and> handPinchStates st (n + i) \<noteq> Some True)
                [0..<length (h # hs)] =
      (if ?t then [0] else []) @ map Suc (filter ?P [0..<length hs])"
    using filter_upt_Suc [of "\<lambda>i. hand_pinched ((h # hs) ! i) \<and> handPinchStates st (n + i) \<noteq> Some True"
        "length hs"]
    by simp
  have m: "(\<lambda>j. if Suc n \<le> j \<and> j < Suc n + length hs
              then Some (hand_pinched (hs ! (j - Suc n)))
              else ((handPinchStates st)(n \<mapsto> hand_pinched h)) j) =
      (\<lambda>j. if n \<le> j \<and> j < n + length (h # hs)
              then Some (hand_pinched ((h # hs) ! (j - n)))
              else handPinchStates st j)"
    by (auto simp: fun_eq_iff nth_Cons' Suc_diff_le)
  have pts: "map (\<lambda>i. spawn_point inp ((h # hs) ! i))
        ((if ?t then [0] else []) @ map Suc (filter ?P [0..<length hs])) =
      (if ?t then [spawn_point inp h] else []) @
      map (\<lambda>i. spawn_point inp (hs ! i)) (filter ?P [0..<length hs])"
    by (simp add: comp_def)
  have fw: "fireworks ?st1 @ bursts R (drawn ?st1)
        (map (\<lambda>i. spawn_point inp (hs ! i)) (filter ?P [0..<length hs])) =
      fireworks st @ bursts R (drawn st)
        ((if ?t then [spawn_point inp h] else []) @
         map (\<lambda>i. spawn_point inp (hs ! i)) (filter ?P [0..<length hs]))"
    by (simp add: bursts_append snd_new_firework)
  have dr: "drawn ?st1 + 361 * length (filter ?P [0..<length hs]) =
      drawn st + 361 * length ((if ?t then [0] else []) @ map Suc (filter ?P [0..<length hs]))"
    by simp
  have cv: "canvas ?st1 @ concat (map (\<lambda>h. feedback inp (thumbTip h) (indexTip h)) hs) =
      canvas st @ concat (map (\<lambda>h. feedback inp (thumbTip h) (indexTip h)) (h # hs))"
    by simp
  have hp: "handPinchStates ?st1 = (handPinchStates st)(n \<mapsto> hand_pinched h)"
    by simp
  show ?case
    unfolding step Cons.IH [OF hs] P1 filt pts fw dr cv hp m
    by (simp add: snd_new_firework)
qed

lemma forEach_eq:
  assumes "\<forall>h\<in>set hs. well_formed h"
  shows "forEach R inp hs 0 st =
    Inr (st\<lparr>fireworks := fireworks st @ bursts R (drawn st)
               (map (\<lambda>i. spawn_point inp (hs ! i)) (triggered (handPinchStates st) hs)),
            handPinchStates := (\<lambda>j. if j < length hs then Some (hand_pinched (hs ! j))
                                     else handPinchStates st j),
            drawn := drawn st + 361 * length (triggered (handPinchStates st) hs),
            canvas := canvas st @ concat (map (\<lambda>h. feedback inp (thumbTip h) (indexTip h)) hs)\<rparr>)"
  using forEach_from [OF assms, of R inp 0 st]
  by (simp only: triggered_def add_0 diff_zero le0 simp_thms)

lemma distance_eq:
  "distance t x = sqrt ((coord_x t - coord_x x)\<^sup>2 + (coord_y t - coord_y x)\<^sup>2)"
  by (simp add: distance_def Let_def power2_eq_square)

lemma hand_pinched_iff:
  "hand_pinched h \<longleftrightarrow> distance (thumbTip h) (indexTip h) < 0.05"
  by (simp add: hand_pinched_def isPinched_def pinchThreshold_def)

lemma pos_new_firework:
  "map pos (particles (fst (new_firework R k a b))) = replicate 120 (a, b)"
proof -
  have "map pos (particles (fst (new_firework R k a b))) = map (\<lambda>i. (a, b)) [0..<120]"
    by (simp add: new_firework_eq new_particle_def createVector_def comp_def del: upt_Suc)
  then show ?thesis
    by (simp add: map_replicate_const del: upt_Suc)
qed

lemma well_formed_pinch_hand: "well_formed (pinch_hand d)"
  by (simp add: pinch_hand_def well_formed_def THUMB_TIP_def INDEX_FINGER_TIP_def)

lemma hand_distance_pinch_hand: "0 \<le> d \<Longrightarrow> hand_distance (pinch_hand d) = d"
proof -
  assume d: "0 \<le> d"
  have t: "thumbTip (pinch_hand d) = \<lparr>coord_x = 0.5, coord_y = 0.5, coord_z = 0\<rparr>"
    by (simp add: pinch_hand_def thumbTip_def THUMB_TIP_def nth_append)
  have x: "indexTip (pinch_hand d) = \<lparr>coord_x = 0.5 + d, coord_y = 0.5, coord_z = 0\<rparr>"
    by (simp add: pinch_hand_def indexTip_def INDEX_FINGER_TIP_def nth_append)
  show ?thesis
    unfolding hand_distance_def t x using d by (simp add: distance_eq)
qed

lemma hands_pinch_frame: "hands (pinch_frame t d) = [pinch_hand d]"
  by (simp add: hands_def pinch_frame_def)

text \<open>
  Claim C3. The distance of a hand is the Euclidean distance of its two finger tips in
  the plane. For a well-formed hand the callback returns, and it pushes a burst if and
  only if that distance is below 0.05 and the state stored for the index is not true
  (it is false or absent); the new burst is the one made at the midpoint of the two tips
  scaled by the width and height of the surface, where all its 120 particles start.
  Otherwise, so whenever the distance is 0.05 or more, the list of bursts is unchanged.
\<close>

theorem pinch_spawn:
  assumes "well_formed h"
  shows "distance (thumbTip h) (indexTip h) =
           sqrt ((coord_x (thumbTip h) - coord_x (indexTip h))\<^sup>2 +
                 (coord_y (thumbTip h) - coord_y (indexTip h))\<^sup>2) \<and>
         (\<exists>st'. process_hand R inp h index st = Inr st' \<and>
            (if distance (thumbTip h) (indexTip h) < 0.05 \<and> handPinchStates st index \<noteq> Some True
             then \<exists>f. fireworks st' = fireworks st @ [f] \<and>
                    f = fst (new_firework R (drawn st)
                          ((coord_x (thumbTip h) + coord_x (indexTip h)) / 2 * width inp)
                          ((coord_y (thumbTip h) + coord_y (indexTip h)) / 2 * height inp)) \<and>
                    map pos (particles f) = replicate 120
                          ((coord_x (thumbTip h) + coord_x (indexTip h)) / 2 * width inp,
                           (coord_y (thumbTip h) + coord_y (indexTip h)) / 2 * height inp)
             else fireworks st' = fireworks st))"
  using process_hand_eq [OF assms, of R inp index st]
  by (simp add: distance_eq [symmetric] hand_pinched_iff spawn_point_def pos_new_firework)

lemma distance_less_iff:
  "0 < d \<Longrightarrow>
   distance t x < d \<longleftrightarrow> (coord_x t - coord_x x)\<^sup>2 + (coord_y t - coord_y x)\<^sup>2 < d\<^sup>2"
proof -
  assume d: "0 < d"
  have "distance t x < d \<longleftrightarrow>
      sqrt ((coord_x t - coord_x x)\<^sup>2 + (coord_y t - coord_y x)\<^sup>2) < sqrt (d\<^sup>2)"
    using d by (simp add: distance_eq)
  then show ?thesis
    by (simp only: real_sqrt_less_iff)
qed

theorem pinch_spawn_witness:
  "well_formed (pinch_hand 0.03) \<and>
   (\<exists>st'. process_hand (\<lambda>_. 0) (pinch_frame 0 0.03) (pinch_hand 0.03) 0 initial = Inr st' \<and>
      map pos (concat (map particles (fireworks st'))) = replicate 120 (329.6, 240))"
proof -
  have c: "well_formed (pinch_hand 0.03)"
    by (rule well_formed_pinch_hand)
  have t: "thumbTip (pinch_hand 0.03) = \<lparr>coord_x = 0.5, coord_y = 0.5, coord_z = 0\<rparr>"
    by (simp add: pinch_hand_def thumbTip_def THUMB_TIP_def nth_append)
  have x: "indexTip (pinch_hand 0.03) = \<lparr>coord_x = 0.53, coord_y = 0.5, coord_z = 0\<rparr>"
    by (simp add: pinch_hand_def indexTip_def INDEX_FINGER_TIP_def nth_append)
  have d: "distance (thumbTip (pinch_hand 0.03)) (indexTip (pinch_hand 0.03)) < 0.05"
    unfolding t x by (subst distance_less_iff) (simp_all add: power2_eq_square)
  have s: "handPinchStates initial 0 \<noteq> Some True"
    by (simp add: initial_def)
  from pinch_spawn [OF c, of "\<lambda>_. 0" "pinch_frame 0 0.03" 0 initial] d s
  obtain st' where "process_hand (\<lambda>_. 0) (pinch_frame 0 0.03) (pinch_hand 0.03) 0 initial = Inr st'"
    and "map pos (concat (map particles (fireworks st'))) = replicate 120 (329.6, 240)"
    unfolding t x by (auto simp: initial_def pinch_frame_def)
  with c show ?thesis by blast
qed

lemma detection_eq:
  assumes "currentTime inp \<noteq> lastVideoTime st" and "landmarks inp = Some hs"
    and "\<forall>h\<in>set hs. well_formed h"
  shows "detection R inp st =
    Inr (st\<lparr>fireworks := fireworks st @ bursts R (drawn st)
               (map (\<lambda>i. spawn_point inp (hs ! i)) (triggered (handPinchStates st) hs)),
            handPinchStates := (\<lambda>j. if j < length hs then Some (hand_pinched (hs ! j))
                                     else handPinchStates st j),
            lastVideoTime := currentTime inp,
            drawn := drawn st + 361 * length (triggered (handPinchStates st) hs),
            canvas := canvas st @ concat (map (\<lambda>h. feedback inp (thumbTip h) (indexTip h)) hs)\<rparr>)"
  using assms(1,2)
  by (simp add: detection_def Let_def forEach_eq [OF assms(3)] cong: if_cong)

lemma detection_skip:
  "currentTime inp = lastVideoTime st \<Longrightarrow> detection R inp st = Inr st"
  "landmarks inp = None \<Longrightarrow> currentTime inp \<noteq> lastVideoTime st \<Longrightarrow>
     detection R inp st = Inr (st\<lparr>lastVideoTime := currentTime inp\<rparr>)"
  by (simp_all add: detection_def)

text \<open>
  Claim C5. When a frame is analysed and all its hands are well formed, the detection
  block and the whole of \<^verbatim>\<open>p.draw\<close> return; afterwards the state stored for every index
  below the number of hands is that hand's classification in this frame (distance below
  0.05), whatever was stored before, and the state stored for every other index is what
  it was. When the frame is not analysed, or reports no landmarks, the table is unchanged.
\<close>

theorem pinch_states_stored:
  "(currentTime inp \<noteq> lastVideoTime st \<and> landmarks inp = Some hs \<and> (\<forall>h\<in>set hs. well_formed h) \<longrightarrow>
      (\<exists>st' st''. detection R inp (st\<lparr>canvas := [Clear]\<rparr>) = Inr st' \<and> draw R inp st = Inr st'' \<and>
         handPinchStates st'' = handPinchStates st' \<and>
         (\<forall>i<length hs. handPinchStates st' i =
              Some (distance (thumbTip (hs ! i)) (indexTip (hs ! i)) < 0.05)) \<and>
         (\<forall>i\<ge>length hs. handPinchStates st' i = handPinchStates st i))) \<and>
   (currentTime inp = lastVideoTime st \<or> landmarks inp = None \<longrightarrow>
      (\<exists>st''. draw R inp st = Inr st'' \<and> handPinchStates st'' = handPinchStates st))"
proof (intro conjI impI)
  assume a: "currentTime inp \<noteq> lastVideoTime st \<and> landmarks inp = Some hs \<and>
    (\<forall>h\<in>set hs. well_formed h)"
  then have "currentTime inp \<noteq> lastVideoTime (st\<lparr>canvas := [Clear]\<rparr>)"
    and "landmarks inp = Some hs" and "\<forall>h\<in>set hs. well_formed h"
    by simp_all
  from detection_eq [OF this, of R]
  show "\<exists>st' st''. detection R inp (st\<lparr>canvas := [Clear]\<rparr>) = Inr st' \<and> draw R inp st = Inr st'' \<and>
         handPinchStates st'' = handPinchStates st' \<and>
         (\<forall>i<length hs. handPinchStates st' i =
              Some (distance (thumbTip (hs ! i)) (indexTip (hs ! i)) < 0.05)) \<and>
         (\<forall>i\<ge>length hs. handPinchStates st' i = handPinchStates st i)"
    by (simp add: draw_eq hand_pinched_iff)
next
  assume "currentTime inp = lastVideoTime st \<or> landmarks inp = None"
  then show "\<exists>st''. draw R inp st = Inr st'' \<and> handPinchStates st'' = handPinchStates st"
    by (cases "currentTime inp = lastVideoTime st") (auto simp: draw_eq detection_skip)
qed

theorem pinch_states_stored_witness:
  "(\<exists>st''. draw (\<lambda>_. 0) (pinch_frame 0 0.03) initial = Inr st'' \<and>
      handPinchStates st'' 0 = Some True \<and> handPinchStates st'' 1 = None) \<and>
   (\<exists>st''. draw (\<lambda>_. 0) (pinch_frame (- 1) 0.03) initial = Inr st'' \<and>
      handPinchStates st'' 0 = None)"
proof -
  define h where "h = pinch_hand 0.03"
  define inp where "inp = pinch_frame 0 0.03"
  have d: "distance (thumbTip h) (indexTip h) < 0.05"
    using hand_distance_pinch_hand [of "0.03"] by (simp add: h_def hand_distance_def)
  have g: "currentTime inp \<noteq> lastVideoTime initial \<and> landmarks inp = Some [h] \<and>
      (\<forall>h\<in>set [h]. well_formed h)"
    by (simp add: initial_def inp_def h_def pinch_frame_def well_formed_pinch_hand)
  from pinch_states_stored [of inp initial "[h]" "\<lambda>_. 0", THEN conjunct1, THEN mp, OF g]
  obtain st' st'' where "detection (\<lambda>_. 0) inp (initial\<lparr>canvas := [Clear]\<rparr>) = Inr st'"
    and 0: "draw (\<lambda>_. 0) inp initial = Inr st''"
    and 1: "handPinchStates st'' = handPinchStates st'"
    and 2: "\<forall>i<length [h]. handPinchStates st' i =
              Some (distance (thumbTip ([h] ! i)) (indexTip ([h] ! i)) < 0.05)"
    and 3: "\<forall>i\<ge>length [h]. handPinchStates st' i = handPinchStates initial i"
    by (elim exE conjE) (rule that; assumption)
  from 2 d have "handPinchStates st' 0 = Some True"
    by simp
  moreover from 3 have "handPinchStates st' 1 = None"
    by (simp add: initial_def)
  ultimately have "draw (\<lambda>_. 0) inp initial = Inr st'' \<and>
      handPinchStates st'' 0 = Some True \<and> handPinchStates st'' 1 = None"
    using 0 1 by simp
  then have first: "\<exists>st''. draw (\<lambda>_. 0) (pinch_frame 0 0.03) initial = Inr st'' \<and>
      handPinchStates st'' 0 = Some True \<and> handPinchStates st'' 1 = None"
    unfolding inp_def by (rule exI)
  have "currentTime (pinch_frame (- 1) 0.03) = lastVideoTime initial \<or>
      landmarks (pinch_frame (- 1) 0.03) = None"
    by (simp add: pinch_frame_def initial_def)
  from pinch_states_stored [of "pinch_frame (- 1) 0.03" initial "[]" "\<lambda>_. 0",
      THEN conjunct2, THEN mp, OF this]
  obtain st2 where "draw (\<lambda>_. 0) (pinch_frame (- 1) 0.03) initial = Inr st2"
    and "handPinchStates st2 = handPinchStates initial"
    by blast
  then have "draw (\<lambda>_. 0) (pinch_frame (- 1) 0.03) initial = Inr st2 \<and>
      handPinchStates st2 0 = None"
    by (simp add: initial_def)
  then have "\<exists>st''. draw (\<lambda>_. 0) (pinch_frame (- 1) 0.03) initial = Inr st'' \<and>
      handPinchStates st'' 0 = None"
    by (rule exI)
  with first show ?thesis by (rule conjI)
qed

section \<open>Sessions of several frames\<close>

lemma mem_triggered:
  "i \<in> set (triggered m hs) \<longleftrightarrow> i < length hs \<and> hand_pinched (hs ! i) \<and> m i \<noteq> Some True"
  by (auto simp: triggered_def)

lemma hand_pinched_distance: "hand_pinched h \<longleftrightarrow> hand_distance h < 0.05"
  by (simp add: hand_pinched_iff hand_distance_def)

lemma spawned_eq:
  assumes "currentTime inp \<noteq> lastVideoTime st" and "landmarks inp \<noteq> None"
    and "list_all well_formed (hands inp)"
  shows "spawned R inp st =
    bursts R (drawn st)
      (map (\<lambda>j. spawn_point inp (hands inp ! j)) (triggered (handPinchStates st) (hands inp)))"
proof -
  from assms(2) obtain hs where hs: "landmarks inp = Some hs" by auto
  then have h: "hands inp = hs" by (simp add: hands_def)
  have "currentTime inp \<noteq> lastVideoTime (st\<lparr>canvas := [Clear]\<rparr>)"
    using assms(1) by simp
  moreover have "\<forall>h\<in>set hs. well_formed h"
    using assms(3) by (simp add: h list_all_iff)
  ultimately show ?thesis
    using hs by (simp add: spawned_def detection_eq h)
qed

lemma draw_analysed:
  assumes "currentTime inp \<noteq> lastVideoTime st" and "landmarks inp \<noteq> None"
    and "list_all well_formed (hands inp)"
  shows "\<exists>st'. draw R inp st = Inr st' \<and> lastVideoTime st' = currentTime inp \<and>
     handPinchStates st' = (\<lambda>j. if j < length (hands inp) then Some (hand_pinched (hands inp ! j))
                                else handPinchStates st j)"
proof -
  from assms(2) obtain hs where hs: "landmarks inp = Some hs" by auto
  then have h: "hands inp = hs" by (simp add: hands_def)
  have "currentTime inp \<noteq> lastVideoTime (st\<lparr>canvas := [Clear]\<rparr>)"
    using assms(1) by simp
  moreover have "\<forall>h\<in>set hs. well_formed h"
    using assms(3) by (simp add: h list_all_iff)
  ultimately show ?thesis
    using hs by (simp add: draw_eq detection_eq h cong: if_cong)
qed

lemma run_analysed:
  assumes "analysed (lastVideoTime st) inps" and "\<forall>inp\<in>set inps. i < length (hands inp)"
    and "k < length inps"
  shows "\<exists>s. run R st (take k inps) = Inr s \<and> currentTime (inps ! k) \<noteq> lastVideoTime s \<and>
     handPinchStates s i =
       (if k = 0 then handPinchStates st i else Some (hand_pinched (hands (inps ! (k - 1)) ! i)))"
  using assms
proof (induction inps arbitrary: st k)
  case Nil
  then show ?case by simp
next
  case (Cons inp inps)
  show ?case
  proof (cases k)
    case 0
    with Cons.prems show ?thesis by simp
  next
    case (Suc k')
    from Cons.prems have a: "currentTime inp \<noteq> lastVideoTime st" "landmarks inp \<noteq> None"
      "list_all well_formed (hands inp)" and rest: "analysed (currentTime inp) inps"
      and i: "i < length (hands inp)" and rs: "\<forall>inp\<in>set inps. i < length (hands inp)"
      and k': "k' < length inps"
      using Suc by simp_all
    from draw_analysed [OF a, of R] obtain st' where d: "draw R inp st = Inr st'"
      and t: "lastVideoTime st' = currentTime inp"
      and m: "handPinchStates st' =
        (\<lambda>j. if j < length (hands inp) then Some (hand_pinched (hands inp ! j))
             else handPinchStates st j)"
      by blast
    from rest have "analysed (lastVideoTime st') inps" by (simp add: t)
    from Cons.IH [OF this rs k'] obtain s where "run R st' (take k' inps) = Inr s"
      and "currentTime (inps ! k') \<noteq> lastVideoTime s"
      and "handPinchStates s i =
        (if k' = 0 then handPinchStates st' i else Some (hand_pinched (hands (inps ! (k' - 1)) ! i)))"
      by blast
    then show ?thesis
      using Suc d m i by (cases k') simp_all
  qed
qed

lemma analysed_nth:
  "analysed t inps \<Longrightarrow> k < length inps \<Longrightarrow>
   landmarks (inps ! k) \<noteq> None \<and> list_all well_formed (hands (inps ! k))"
proof (induction inps arbitrary: t k)
  case Nil
  then show ?case by simp
next
  case (Cons inp inps)
  show ?case
  proof (cases k)
    case 0
    with Cons.prems show ?thesis by simp
  next
    case (Suc k')
    with Cons.prems have "analysed (currentTime inp) inps" and "k' < length inps"
      by simp_all
    then show ?thesis
      unfolding Suc nth_Cons_Suc by (rule Cons.IH)
  qed
qed

text \<open>
  Claim C2. Among bursts whose flag is set only with an empty collection, one pass of
  \<^verbatim>\<open>Firework.update\<close> leaves the flag set if and only if the collection is empty, and the
  loop of \<^verbatim>\<open>p.draw\<close> keeps exactly the updated bursts whose collection is not empty: a
  burst that becomes empty is gone after the same pass. The bursts the code handles are
  of that kind: a new burst is not flagged, and after any call of \<^verbatim>\<open>p.draw\<close> every burst
  left in the list is unflagged and has particles.
\<close>

theorem burst_completion:
  assumes "\<forall>g\<in>set (fireworks st). fdone g \<longrightarrow> particles g = []"
  shows "(\<forall>g\<in>set (fireworks st). fdone (fw_update g) \<longleftrightarrow> particles (fw_update g) = []) \<and>
         fireworks (fireworks_loop (length (fireworks st)) st) =
           filter (\<lambda>g. particles g \<noteq> []) (map fw_update (fireworks st)) \<and>
         (\<forall>g\<in>set (fireworks (fireworks_loop (length (fireworks st)) st)).
            \<not> fdone g \<and> particles g \<noteq> []) \<and>
         \<not> fdone (fst (new_firework R k a b)) \<and>
         (draw R' inp st0 = Inr st1 \<longrightarrow>
            (\<forall>g\<in>set (fireworks st1). \<not> fdone g \<and> particles g \<noteq> []))"
proof -
  have iff: "fdone (fw_update g) \<longleftrightarrow> particles (fw_update g) = []"
    if "g \<in> set (fireworks st)" for g
  proof (cases "fdone g")
    case True
    with assms that have "particles g = []" by blast
    then have "particles (fw_update g) = []" by (simp add: particles_fw_update)
    then show ?thesis by (simp add: fdone_fw_update)
  next
    case False
    then show ?thesis by (simp add: fdone_fw_update)
  qed
  have "filter (\<lambda>g. \<not> fdone g) (map fw_update (fireworks st)) =
      filter (\<lambda>g. particles g \<noteq> []) (map fw_update (fireworks st))"
    using iff by (simp add: filter_map comp_def cong: filter_cong)
  then have loop: "fireworks (fireworks_loop (length (fireworks st)) st) =
      filter (\<lambda>g. particles g \<noteq> []) (map fw_update (fireworks st))"
    by (simp add: fireworks_loop_filter)
  have kept: "\<not> fdone g \<and> particles g \<noteq> []"
    if "g \<in> set (fireworks (fireworks_loop (length (fireworks st)) st))" for g
    using that iff unfolding loop by auto
  have fresh: "\<not> fdone (fst (new_firework R k a b))"
    by (simp add: new_firework_eq)
  have after: "\<not> fdone g \<and> particles g \<noteq> []"
    if d: "draw R' inp st0 = Inr st1" and g: "g \<in> set (fireworks st1)" for g
  proof (cases "detection R' inp (st0\<lparr>canvas := [Clear]\<rparr>)")
    case (Inl e)
    with d show ?thesis by (simp add: draw_eq)
  next
    case (Inr s)
    with d have "fireworks st1 = filter (\<lambda>g. \<not> fdone g) (map fw_update (fireworks s))"
      by (auto simp: draw_eq)
    with g obtain g0 where "g = fw_update g0" and "\<not> fdone (fw_update g0)"
      by auto
    then show ?thesis
      by (simp add: fdone_fw_update)
  qed
  from iff loop kept fresh after show ?thesis by blast
qed

theorem burst_completion_witness:
  "fireworks (fireworks_loop (length (fireworks
      \<lparr>fireworks = [\<lparr>particles = [], hue = 0, fdone = False\<rparr>],
       handPinchStates = Map.empty, lastVideoTime = 0, drawn = 0, canvas = []\<rparr>))
      \<lparr>fireworks = [\<lparr>particles = [], hue = 0, fdone = False\<rparr>],
       handPinchStates = Map.empty, lastVideoTime = 0, drawn = 0, canvas = []\<rparr>) = [] \<and>
   (\<exists>st1. draw (\<lambda>_. 0) (pinch_frame 0 0.03) initial = Inr st1 \<and>
      (\<forall>g\<in>set (fireworks st1). \<not> fdone g \<and> particles g \<noteq> []))"
proof -
  let ?st = "\<lparr>fireworks = [\<lparr>particles = [], hue = 0, fdone = False\<rparr>],
       handPinchStates = Map.empty, lastVideoTime = 0, drawn = 0, canvas = []\<rparr>"
  have "currentTime (pinch_frame 0 0.03) \<noteq> lastVideoTime initial"
    and "landmarks (pinch_frame 0 0.03) \<noteq> None"
    and "list_all well_formed (hands (pinch_frame 0 0.03))"
    by (simp_all add: pinch_frame_def initial_def hands_def well_formed_pinch_hand)
  from draw_analysed [OF this, of "\<lambda>_. 0"]
  obtain st1 where d: "draw (\<lambda>_. 0) (pinch_frame 0 0.03) initial = Inr st1"
    by blast
  have a: "\<forall>g\<in>set (fireworks ?st). fdone g \<longrightarrow> particles g = []"
    by simp
  from burst_completion [OF a, of _ _ _ _ "\<lambda>_. 0" "pinch_frame 0 0.03" initial st1] d
  have "fireworks (fireworks_loop (length (fireworks ?st)) ?st) =
      filter (\<lambda>g. particles g \<noteq> []) (map fw_update (fireworks ?st))"
    and "\<forall>g\<in>set (fireworks st1). \<not> fdone g \<and> particles g \<noteq> []"
    by blast+
  with d show ?thesis
    by (simp add: fw_update_def)
qed

text \<open>
  Claim C4. Take consecutive analysed frames that all report a hand at index \<open>i\<close>, starting
  from a state that stores nothing, or false, for \<open>i\<close>. Every frame \<open>k\<close> is reached, and
  the bursts its detection block pushes are those made, in order, at the spawn points of
  the triggered hands. Hand \<open>i\<close> is among them exactly when its distance is below 0.05 in
  frame \<open>k\<close> and either \<open>k\<close> is the first frame or the distance was not below 0.05 in the
  frame before. With the distances 0.08, 0.03, 0.03, 0.08 that is in the second frame
  only; with all distances below 0.05 it is in the first frame only.
\<close>

theorem pinch_edge:
  assumes "analysed (lastVideoTime st) inps"
    and "\<forall>inp\<in>set inps. i < length (hands inp)"
    and "handPinchStates st i \<noteq> Some True"
    and "k < length inps"
  shows "\<exists>s. run R st (take k inps) = Inr s \<and>
      spawned R (inps ! k) s =
        bursts R (drawn s)
          (map (\<lambda>j. spawn_point (inps ! k) (hands (inps ! k) ! j))
             (triggered (handPinchStates s) (hands (inps ! k)))) \<and>
      (i \<in> set (triggered (handPinchStates s) (hands (inps ! k))) \<longleftrightarrow>
         hand_distance (hands (inps ! k) ! i) < 0.05 \<and>
         (k = 0 \<or> \<not> hand_distance (hands (inps ! (k - 1)) ! i) < 0.05)) \<and>
      (map (\<lambda>inp. hand_distance (hands inp ! i)) inps = [0.08, 0.03, 0.03, 0.08] \<longrightarrow>
         (i \<in> set (triggered (handPinchStates s) (hands (inps ! k))) \<longleftrightarrow> k = 1)) \<and>
      ((\<forall>inp\<in>set inps. hand_distance (hands inp ! i) < 0.05) \<longrightarrow>
         (i \<in> set (triggered (handPinchStates s) (hands (inps ! k))) \<longleftrightarrow> k = 0))"
proof -
  let ?d = "\<lambda>j. hand_distance (hands (inps ! j) ! i)"
  from run_analysed [OF assms(1,2,4), of R] obtain s
    where r: "run R st (take k inps) = Inr s"
      and t: "currentTime (inps ! k) \<noteq> lastVideoTime s"
      and m: "handPinchStates s i =
        (if k = 0 then handPinchStates st i else Some (hand_pinched (hands (inps ! (k - 1)) ! i)))"
    by blast
  let ?T = "i \<in> set (triggered (handPinchStates s) (hands (inps ! k)))"
  have l: "landmarks (inps ! k) \<noteq> None" and w: "list_all well_formed (hands (inps ! k))"
    using analysed_nth [OF assms(1,4)] by simp_all
  have sp: "spawned R (inps ! k) s =
      bursts R (drawn s)
        (map (\<lambda>j. spawn_point (inps ! k) (hands (inps ! k) ! j))
           (triggered (handPinchStates s) (hands (inps ! k))))"
    using t l w by (rule spawned_eq)
  have ik: "i < length (hands (inps ! k))"
    using assms(2,4) by simp
  have edge: "?T \<longleftrightarrow> ?d k < 0.05 \<and> (k = 0 \<or> \<not> ?d (k - 1) < 0.05)"
    using ik assms(3) by (simp add: mem_triggered m hand_pinched_distance)
  have scen: "?T \<longleftrightarrow> k = 1"
    if eq: "map (\<lambda>inp. hand_distance (hands inp ! i)) inps = [0.08, 0.03, 0.03, 0.08]"
  proof -
    have len: "length inps = 4"
      using arg_cong [OF eq, of length] by simp
    have nth: "?d j = [0.08, 0.03, 0.03, 0.08] ! j" if "j < 4" for j
      using arg_cong [OF eq, of "\<lambda>xs. xs ! j"] that len by simp
    from assms(4) len have "k = 0 \<or> k = 1 \<or> k = 2 \<or> k = 3" by auto
    then show ?thesis
      unfolding edge using nth [of 0] nth [of 1] nth [of 2] nth [of 3]
      by (elim disjE) simp_all
  qed
  have held: "?T \<longleftrightarrow> k = 0"
    if all: "\<forall>inp\<in>set inps. hand_distance (hands inp ! i) < 0.05"
  proof -
    have "?d j < 0.05" if "j < length inps" for j
      using all that by simp
    from this [of k] this [of "k - 1"] assms(4) show ?thesis
      unfolding edge by auto
  qed
  from r sp edge scen held show ?thesis by blast
qed

theorem pinch_edge_witness:
  "(\<exists>s. run (\<lambda>_. 0) initial [pinch_frame 0 0.08] = Inr s \<and>
      0 \<in> set (triggered (handPinchStates s) (hands (pinch_frame 1 0.03))) \<and>
      length (spawned (\<lambda>_. 0) (pinch_frame 1 0.03) s) = 1) \<and>
   (\<exists>s. run (\<lambda>_. 0) initial [pinch_frame 0 0.03] = Inr s \<and>
      0 \<notin> set (triggered (handPinchStates s) (hands (pinch_frame 1 0.02))) \<and>
      length (spawned (\<lambda>_. 0) (pinch_frame 1 0.02) s) = 0)"
proof -
  define inps where
    "inps = [pinch_frame 0 0.08, pinch_frame 1 0.03, pinch_frame 2 0.03, pinch_frame 3 0.08]"
  have a: "analysed (lastVideoTime initial) inps"
    by (simp add: inps_def initial_def hands_pinch_frame well_formed_pinch_hand)
       (simp add: pinch_frame_def)
  have i: "\<forall>inp\<in>set inps. 0 < length (hands inp)"
    by (simp add: inps_def hands_pinch_frame)
  have n: "handPinchStates initial 0 \<noteq> Some True"
    by (simp add: initial_def)
  have k: "1 < length inps"
    by (simp add: inps_def)
  have d: "map (\<lambda>inp. hand_distance (hands inp ! 0)) inps = [0.08, 0.03, 0.03, 0.08]"
    by (simp add: inps_def hands_pinch_frame hand_distance_pinch_hand)
  from pinch_edge [OF a i n k, of "\<lambda>_. 0"] d
  obtain s where r: "run (\<lambda>_. 0) initial (take 1 inps) = Inr s"
    and sp: "spawned (\<lambda>_. 0) (inps ! 1) s =
        bursts (\<lambda>_. 0) (drawn s)
          (map (\<lambda>j. spawn_point (inps ! 1) (hands (inps ! 1) ! j))
             (triggered (handPinchStates s) (hands (inps ! 1))))"
    and t: "0 \<in> set (triggered (handPinchStates s) (hands (inps ! 1)))"
    by auto
  have "hand_pinched (pinch_hand 0.03) \<and> handPinchStates s 0 \<noteq> Some True"
    using t by (simp add: mem_triggered inps_def hands_pinch_frame)
  then have "triggered (handPinchStates s) (hands (inps ! 1)) = [0]"
    by (simp add: inps_def hands_pinch_frame triggered_def)
  then have "length (spawned (\<lambda>_. 0) (inps ! 1) s) = 1"
    unfolding sp by simp
  with r t have scenario: "\<exists>s. run (\<lambda>_. 0) initial [pinch_frame 0 0.08] = Inr s \<and>
      0 \<in> set (triggered (handPinchStates s) (hands (pinch_frame 1 0.03))) \<and>
      length (spawned (\<lambda>_. 0) (pinch_frame 1 0.03) s) = 1"
    by (auto simp: inps_def)
  define held where "held = [pinch_frame 0 0.03, pinch_frame 1 0.02]"
  have a': "analysed (lastVideoTime initial) held"
    by (simp add: held_def initial_def hands_pinch_frame well_formed_pinch_hand)
       (simp add: pinch_frame_def)
  have i': "\<forall>inp\<in>set held. 0 < length (hands inp)"
    by (simp add: held_def hands_pinch_frame)
  have k': "1 < length held"
    by (simp add: held_def)
  have d': "\<forall>inp\<in>set held. hand_distance (hands inp ! 0) < 0.05"
    by (simp add: held_def hands_pinch_frame hand_distance_pinch_hand)
  from pinch_edge [OF a' i' n k', of "\<lambda>_. 0"] d'
  obtain s' where r': "run (\<lambda>_. 0) initial (take 1 held) = Inr s'"
    and sp': "spawned (\<lambda>_. 0) (held ! 1) s' =
        bursts (\<lambda>_. 0) (drawn s')
          (map (\<lambda>j. spawn_point (held ! 1) (hands (held ! 1) ! j))
             (triggered (handPinchStates s') (hands (held ! 1))))"
    and t': "0 \<notin> set (triggered (handPinchStates s') (hands (held ! 1)))"
    by auto
  have "hand_pinched (pinch_hand 0.02)"
    by (simp add: hand_pinched_distance hand_distance_pinch_hand)
  then have "handPinchStates s' 0 = Some True"
    using t' by (simp add: mem_triggered held_def hands_pinch_frame)
  then have "triggered (handPinchStates s') (hands (held ! 1)) = []"
    by (simp add: held_def hands_pinch_frame triggered_def)
  then have "length (spawned (\<lambda>_. 0) (held ! 1) s') = 0"
    unfolding sp' by simp
  with r' t' have "\<exists>s. run (\<lambda>_. 0) initial [pinch_frame 0 0.03] = Inr s \<and>
      0 \<notin> set (triggered (handPinchStates s) (hands (pinch_frame 1 0.02))) \<and>
      length (spawned (\<lambda>_. 0) (pinch_frame 1 0.02) s) = 0"
    by (auto simp: held_def)
  with scenario show ?thesis by (rule conjI)
qed

lemma agree_mono: "agree n R R' \<Longrightarrow> m \<le> n \<Longrightarrow> agree m R R'"
  by (simp add: agree_def)

lemma new_particle_agree:
  "agree (k + 3) R R' \<Longrightarrow> new_particle R k a b h e = new_particle R' k a b h e"
  by (simp add: agree_def new_particle_def)

lemma new_firework_agree:
  assumes "agree (k + 361) R R'"
  shows "new_firework R k a b = new_firework R' k a b"
proof -
  have k: "R k = R' k"
    using assms by (simp add: agree_def)
  have "new_particle R (k + 1 + 3 * i) a b h True = new_particle R' (k + 1 + 3 * i) a b h True"
    if "i < 120" for i h
    using that by (intro new_particle_agree agree_mono [OF assms]) simp
  then have "map (\<lambda>i. fst (new_particle R (k + 1 + 3 * i) a b h True)) [0..<120] =
      map (\<lambda>i. fst (new_particle R' (k + 1 + 3 * i) a b h True)) [0..<120]" for h
    by (intro map_cong) simp_all
  then show ?thesis
    unfolding new_firework_eq k by simp
qed

lemma bursts_agree:
  "agree (k + 361 * length pts) R R' \<Longrightarrow> bursts R k pts = bursts R' k pts"
proof (induction pts arbitrary: k)
  case Nil
  show ?case by simp
next
  case (Cons pt pts)
  have "agree (k + 361) R R'"
    using Cons.prems by (rule agree_mono) simp
  then have f: "new_firework R k (fst pt) (snd pt) = new_firework R' k (fst pt) (snd pt)"
    by (rule new_firework_agree)
  have "agree (k + 361 + 361 * length pts) R R'"
    using Cons.prems by (rule agree_mono) simp
  then have "bursts R (k + 361) pts = bursts R' (k + 361) pts"
    by (rule Cons.IH)
  then show ?case
    using f by (simp add: snd_new_firework)
qed

lemma process_hand_Inr:
  "process_hand R inp h i st = Inr st' \<Longrightarrow> well_formed h"
  by (auto simp: process_hand_def well_formed_def landmark_def split: if_splits)

lemma forEach_Inr:
  "forEach R inp hs n st = Inr st' \<Longrightarrow> \<forall>h\<in>set hs. well_formed h"
proof (induction hs arbitrary: n st)
  case Nil
  show ?case by simp
next
  case (Cons h hs)
  from Cons.prems obtain st1 where 1: "process_hand R inp h n st = Inr st1"
    and 2: "forEach R inp hs (Suc n) st1 = Inr st'"
    by (auto split: sum.splits)
  from 1 have "well_formed h" by (rule process_hand_Inr)
  with Cons.IH [OF 2] show ?case by simp
qed

lemma forEach_agree:
  assumes "forEach R inp hs n st = Inr st'" and "agree (drawn st') R R'"
  shows "forEach R' inp hs n st = Inr st'" and "drawn st \<le> drawn st'"
proof -
  let ?T = "filter (\<lambda>i. hand_pinched (hs ! i) \<and> handPinchStates st (n + i) \<noteq> Some True)
    [0..<length hs]"
  let ?pts = "map (\<lambda>i. spawn_point inp (hs ! i)) ?T"
  have w: "\<forall>h\<in>set hs. well_formed h"
    using assms(1) by (rule forEach_Inr)
  have d: "drawn st' = drawn st + 361 * length ?pts"
    using assms(1) unfolding forEach_from [OF w] by auto
  then show "drawn st \<le> drawn st'" by simp
  have "bursts R (drawn st) ?pts = bursts R' (drawn st) ?pts"
    using assms(2) unfolding d by (rule bursts_agree)
  then show "forEach R' inp hs n st = Inr st'"
    using assms(1) unfolding forEach_from [OF w] by simp
qed

lemma detection_agree:
  assumes "detection R inp st = Inr st'" and "agree (drawn st') R R'"
  shows "detection R' inp st = Inr st'" and "drawn st \<le> drawn st'"
proof -
  show "detection R' inp st = Inr st'"
    using assms forEach_agree(1) [of R inp _ 0 "st\<lparr>lastVideoTime := currentTime inp\<rparr>" st' R']
    by (auto simp: detection_def Let_def split: if_splits option.splits)
  show "drawn st \<le> drawn st'"
    using assms forEach_agree(2) [of R inp _ 0 "st\<lparr>lastVideoTime := currentTime inp\<rparr>" st' R]
    by (auto simp: detection_def Let_def agree_def split: if_splits option.splits)
qed

lemma draw_agree:
  assumes "draw R inp st = Inr st'" and "agree (drawn st') R R'"
  shows "draw R' inp st = Inr st'" and "drawn st \<le> drawn st'"
proof -
  from assms(1) obtain s where s: "detection R inp (st\<lparr>canvas := [Clear]\<rparr>) = Inr s"
    and st': "st' = s\<lparr>fireworks := filter (\<lambda>g. \<not> fdone g) (map fw_update (fireworks s)),
                 canvas := canvas s @
                   concat (map (\<lambda>g. fw_show (fw_update g)) (rev (fireworks s)))\<rparr>"
    by (auto simp: draw_eq split: sum.splits)
  have d: "drawn st' = drawn s"
    by (simp add: st')
  from detection_agree [OF s] assms(2) d
  have "detection R' inp (st\<lparr>canvas := [Clear]\<rparr>) = Inr s" and "drawn st \<le> drawn s"
    by simp_all
  then show "draw R' inp st = Inr st'" and "drawn st \<le> drawn st'"
    by (simp_all add: draw_eq st')
qed

lemma run_drawn:
  "run R st inps = Inr st' \<Longrightarrow> drawn st \<le> drawn st'"
proof (induction inps arbitrary: st)
  case Nil
  then show ?case by simp
next
  case (Cons inp inps)
  from Cons.prems obtain s where 1: "draw R inp st = Inr s" and 2: "run R s inps = Inr st'"
    by (auto split: sum.splits)
  have "agree (drawn s) R R" by (simp add: agree_def)
  with 1 have "drawn st \<le> drawn s" by (rule draw_agree(2))
  with Cons.IH [OF 2] show ?case by simp
qed

lemma run_agree:
  "run R st inps = Inr st' \<Longrightarrow> agree (drawn st') R R' \<Longrightarrow> run R' st inps = Inr st'"
proof (induction inps arbitrary: st)
  case Nil
  then show ?case by simp
next
  case (Cons inp inps)
  from Cons.prems(1) obtain s where 1: "draw R inp st = Inr s" and 2: "run R s inps = Inr st'"
    by (auto split: sum.splits)
  from 2 have "drawn s \<le> drawn st'" by (rule run_drawn)
  with Cons.prems(2) have "agree (drawn s) R R'" by (rule agree_mono)
  with 1 have "draw R' inp st = Inr s" by (rule draw_agree(1))
  with Cons.IH [OF 2 Cons.prems(2)] show ?case by simp
qed

lemma run_append:
  "run R st (xs @ ys) = (case run R st xs of Inl e \<Rightarrow> Inl e | Inr s \<Rightarrow> run R s ys)"
  by (induction xs arbitrary: st) (simp_all split: sum.splits)

text \<open>
  Claim C9. If a session run with the random source \<open>R\<close> ends in a state that has consumed
  \<open>n\<close> random values, then with any random source giving the same first \<open>n\<close> values the
  same frames lead, after every number \<open>k\<close> of them, to the same state: the same bursts
  and particles, the same pinch table, and the same calls on the drawing surface.
\<close>

theorem animation_deterministic:
  assumes "run R st inps = Inr st'" and "agree (drawn st') R R'" and "k \<le> length inps"
  shows "\<exists>s. run R st (take k inps) = Inr s \<and> run R' st (take k inps) = Inr s"
proof -
  have "run R st (take k inps @ drop k inps) = Inr st'"
    using assms(1) by simp
  then obtain s where 1: "run R st (take k inps) = Inr s" and 2: "run R s (drop k inps) = Inr st'"
    unfolding run_append by (auto split: sum.splits)
  from 2 have "drawn s \<le> drawn st'" by (rule run_drawn)
  with assms(2) have "agree (drawn s) R R'" by (rule agree_mono)
  with 1 have "run R' st (take k inps) = Inr s" by (rule run_agree)
  with 1 show ?thesis by blast
qed

lemma draw_drawn:
  assumes "currentTime inp \<noteq> lastVideoTime st" and "landmarks inp = Some hs"
    and "\<forall>h\<in>set hs. well_formed h"
  shows "\<exists>st'. draw R inp st = Inr st' \<and>
     drawn st' = drawn st + 361 * length (triggered (handPinchStates st) hs)"
proof -
  have "currentTime inp \<noteq> lastVideoTime (st\<lparr>canvas := [Clear]\<rparr>)"
    using assms(1) by simp
  from detection_eq [OF this assms(2,3), of R] show ?thesis
    by (simp add: draw_eq)
qed

theorem animation_deterministic_witness:
  "\<exists>s. run (\<lambda>_. 0) initial (take 1 [pinch_frame 0 0.03]) = Inr s \<and>
     run (\<lambda>i. if i < 361 then 0 else 1 / 2) initial (take 1 [pinch_frame 0 0.03]) = Inr s"
proof -
  have p: "hand_pinched (pinch_hand 0.03)"
    by (simp add: hand_pinched_distance hand_distance_pinch_hand)
  have "triggered (handPinchStates initial) [pinch_hand 0.03] = [0]"
    using p by (simp add: triggered_def initial_def)
  moreover have "currentTime (pinch_frame 0 0.03) \<noteq> lastVideoTime initial"
    and "landmarks (pinch_frame 0 0.03) = Some [pinch_hand 0.03]"
    and "\<forall>h\<in>set [pinch_hand 0.03]. well_formed h"
    by (simp_all add: pinch_frame_def initial_def well_formed_pinch_hand)
  from draw_drawn [OF this, of "\<lambda>_. 0"]
  obtain st' where "draw (\<lambda>_. 0) (pinch_frame 0 0.03) initial = Inr st'"
    and "drawn st' = drawn initial +
      361 * length (triggered (handPinchStates initial) [pinch_hand 0.03])"
    by blast
  ultimately have r: "run (\<lambda>_. 0) initial [pinch_frame 0 0.03] = Inr st'"
    and d: "drawn st' = 361"
    by (simp_all add: initial_def)
  have a: "agree (drawn st') (\<lambda>_. 0) (\<lambda>i. if i < 361 then 0 else 1 / 2)"
    by (simp add: d agree_def)
  have k: "1 \<le> length [pinch_frame 0 0.03]"
    by simp
  from animation_deterministic [OF r a k] show ?thesis .
qed

end
